theory Spec2Isabelle
  imports Complex_Main
begin

section \<open>A shallow embedding of index.js (proper-lockfile)\<close>

text \<open>
  The module keeps a process-wide registry \<open>locks\<close> of lock objects and drives the
  filesystem through \<open>options.fs\<close>. The embedding follows the source function by
  function. Everything the module gets from outside is a parameter:
  \<^item> \<open>options.fs\<close> is a record of primitives over an abstract world \<open>'w\<close> (disk, clock,
    other processes); each primitive returns its result and the world after the call, so
    any interference by other parties between two calls is part of the primitive;
  \<^item> \<open>Date.now\<close>, \<open>uuid.v4\<close>, \<open>path.normalize\<close> and \<open>path.join\<close> are the fields of
    a \<open>runtime\<close> record;
  \<^item> \<open>extend({}, options, {stale: 0})\<close> is a record update, \<open>errcode\<close> builds an error
    value, a node-style callback \<open>callback(err, value)\<close> is the returned result.
  One call runs its callback chain to the end before another callback of the same process
  runs; the one place where the source's asynchrony is kept is the renewal tick, whose
  timer callback and completion callback are separate functions, so that a release can
  happen between them; the section on the process as a whole puts the calls in any order.
  Times are whole milliseconds (\<open>int\<close>). The registry is read with \<open>locks[file]\<close>;
  paths that name members of \<open>Object.prototype\<close> are outside the model, and so are the
  optional-argument forms of \<open>lock\<close> and \<open>unlock\<close> and the handler of the process's
  \<open>exit\<close> event.
\<close>

subsection \<open>Errors\<close>

type_synonym path = string

datatype js_error = Error (message: string) (code: string) (err_file: "path option")

definition errcode :: "string \<Rightarrow> string \<Rightarrow> path option \<Rightarrow> js_error" where
  "errcode msg c props = Error msg c props"

text \<open>An uncaught \<open>TypeError\<close> (reading a property of \<open>undefined\<close>).\<close>

definition TypeError :: js_error where
  "TypeError = Error ''Cannot read property of undefined'' [] None"

text \<open>The test \<open>err && err.code !== 'ENOENT'\<close>.\<close>

definition not_ENOENT :: "js_error option \<Rightarrow> bool" where
  "not_ENOENT err = (case err of None \<Rightarrow> False | Some e \<Rightarrow> code e \<noteq> ''ENOENT'')"

subsection \<open>The primitives, the options and the process state\<close>

record 'w fs_api =
  mkdir :: "path \<Rightarrow> 'w \<Rightarrow> js_error option \<times> 'w"
  writeFile :: "path \<Rightarrow> string \<Rightarrow> 'w \<Rightarrow> js_error option \<times> 'w"
  stat :: "path \<Rightarrow> 'w \<Rightarrow> (js_error + int) \<times> 'w"
  unlink :: "path \<Rightarrow> 'w \<Rightarrow> js_error option \<times> 'w"
  rmdir :: "path \<Rightarrow> 'w \<Rightarrow> js_error option \<times> 'w"
  readFile :: "path \<Rightarrow> 'w \<Rightarrow> (js_error + string) \<times> 'w"
  utimes :: "path \<Rightarrow> rat \<Rightarrow> rat \<Rightarrow> 'w \<Rightarrow> js_error option \<times> 'w"
  realpath :: "path \<Rightarrow> 'w \<Rightarrow> (js_error + path) \<times> 'w"

text \<open>
  \<open>stat\<close> returns \<open>stat.mtime.getTime()\<close>, in milliseconds; \<open>utimes\<close> takes seconds, as
  the source passes \<open>Date.now() / 1000\<close>.
\<close>

datatype fs_call =
  Mkdir path | WriteFile path string | Stat path | Unlink path | Rmdir path
  | ReadFile path | Utimes path rat rat | Realpath path

record 'w options =
  stale :: int
  update :: int
  resolve :: bool
  retries :: nat
  fs :: "'w fs_api"

record 'w runtime =
  date_now :: "'w \<Rightarrow> int"
  uuid_v4 :: "'w \<Rightarrow> string \<times> 'w"
  path_normalize :: "path \<Rightarrow> path"
  path_join :: "path \<Rightarrow> path \<Rightarrow> path"

text \<open>
  A lock object. \<open>released\<close>, \<open>updateError\<close>, \<open>updateDelay\<close> and \<open>updateTimeout\<close> are
  absent (\<open>undefined\<close>) when the object is created. The \<open>compromised\<close> callback is not a
  field: calling it is the outcome \<open>Compromised err\<close> of a renewal tick.
\<close>

record 'w lock_obj =
  uid :: string
  options :: "'w options"
  lastUpdate :: int
  released :: bool
  updateError :: "js_error option"
  updateDelay :: "int option"
  updateTimeout :: "nat option"

text \<open>A pending \<open>setTimeout\<close>: the closure of the timer callback of \<open>updateLock\<close>.\<close>

record 'w timer =
  t_file :: path
  t_options :: "'w options"
  t_lock :: nat
  t_delay :: int

text \<open>
  The process: the world, the registry \<open>locks\<close> (a path to a reference), the lock
  objects by reference, the pending timers, and the log of the calls made to
  \<open>options.fs\<close>, oldest first.
\<close>

record 'w state =
  world :: 'w
  locks :: "path \<rightharpoonup> nat"
  heap :: "nat \<Rightarrow> 'w lock_obj"
  next_ref :: nat
  timers :: "nat \<rightharpoonup> 'w timer"
  next_timer :: nat
  calls :: "fs_call list"

text \<open>The call sites \<open>options.fs.mkdir(...)\<close> and so on: run the primitive, log the call.\<close>

definition fs_mkdir :: "'w options \<Rightarrow> path \<Rightarrow> 'w state \<Rightarrow> js_error option \<times> 'w state" where
  "fs_mkdir opts p st =
     (case mkdir (fs opts) p (world st) of
        (r, w) \<Rightarrow> (r, st\<lparr>world := w, calls := calls st @ [Mkdir p]\<rparr>))"

definition fs_writeFile ::
  "'w options \<Rightarrow> path \<Rightarrow> string \<Rightarrow> 'w state \<Rightarrow> js_error option \<times> 'w state" where
  "fs_writeFile opts p s st =
     (case writeFile (fs opts) p s (world st) of
        (r, w) \<Rightarrow> (r, st\<lparr>world := w, calls := calls st @ [WriteFile p s]\<rparr>))"

definition fs_stat :: "'w options \<Rightarrow> path \<Rightarrow> 'w state \<Rightarrow> (js_error + int) \<times> 'w state" where
  "fs_stat opts p st =
     (case stat (fs opts) p (world st) of
        (r, w) \<Rightarrow> (r, st\<lparr>world := w, calls := calls st @ [Stat p]\<rparr>))"

definition fs_unlink :: "'w options \<Rightarrow> path \<Rightarrow> 'w state \<Rightarrow> js_error option \<times> 'w state" where
  "fs_unlink opts p st =
     (case unlink (fs opts) p (world st) of
        (r, w) \<Rightarrow> (r, st\<lparr>world := w, calls := calls st @ [Unlink p]\<rparr>))"

definition fs_rmdir :: "'w options \<Rightarrow> path \<Rightarrow> 'w state \<Rightarrow> js_error option \<times> 'w state" where
  "fs_rmdir opts p st =
     (case rmdir (fs opts) p (world st) of
        (r, w) \<Rightarrow> (r, st\<lparr>world := w, calls := calls st @ [Rmdir p]\<rparr>))"

definition fs_readFile ::
  "'w options \<Rightarrow> path \<Rightarrow> 'w state \<Rightarrow> (js_error + string) \<times> 'w state" where
  "fs_readFile opts p st =
     (case readFile (fs opts) p (world st) of
        (r, w) \<Rightarrow> (r, st\<lparr>world := w, calls := calls st @ [ReadFile p]\<rparr>))"

definition fs_utimes ::
  "'w options \<Rightarrow> path \<Rightarrow> rat \<Rightarrow> rat \<Rightarrow> 'w state \<Rightarrow> js_error option \<times> 'w state" where
  "fs_utimes opts p a m st =
     (case utimes (fs opts) p a m (world st) of
        (r, w) \<Rightarrow> (r, st\<lparr>world := w, calls := calls st @ [Utimes p a m]\<rparr>))"

definition fs_realpath ::
  "'w options \<Rightarrow> path \<Rightarrow> 'w state \<Rightarrow> (js_error + path) \<times> 'w state" where
  "fs_realpath opts p st =
     (case realpath (fs opts) p (world st) of
        (r, w) \<Rightarrow> (r, st\<lparr>world := w, calls := calls st @ [Realpath p]\<rparr>))"

subsection \<open>getLockFile, getUidFile, canonicalPath\<close>

definition getLockFile :: "path \<Rightarrow> path" where
  "getLockFile file = file @ ''.lock''"

definition getUidFile :: "'w runtime \<Rightarrow> path \<Rightarrow> path" where
  "getUidFile rt file = path_join rt (getLockFile file) ''.uid''"

definition canonicalPath ::
  "'w runtime \<Rightarrow> path \<Rightarrow> 'w options \<Rightarrow> 'w state \<Rightarrow> (js_error + path) \<times> 'w state" where
  "canonicalPath rt file opts st =
     (if \<not> resolve opts then (Inr (path_normalize rt file), st)
      else fs_realpath opts file st)"

subsection \<open>removeLock and acquireLock\<close>

definition removeLock ::
  "'w runtime \<Rightarrow> path \<Rightarrow> 'w options \<Rightarrow> 'w state \<Rightarrow> js_error option \<times> 'w state" where
  "removeLock rt file opts st =
     (case fs_unlink opts (getUidFile rt file) st of
        (err, st1) \<Rightarrow>
          if not_ENOENT err then (err, st1)
          else (case fs_rmdir opts (getLockFile file) st1 of
                  (err2, st2) \<Rightarrow>
                    if not_ENOENT err2 then (err2, st2) else (None, st2)))"

definition ELOCKED :: "path \<Rightarrow> js_error" where
  "ELOCKED file = errcode ''Lock file is already being hold'' ''ELOCKED'' (Some file)"

function acquireLock ::
  "'w runtime \<Rightarrow> path \<Rightarrow> 'w options \<Rightarrow> 'w state \<Rightarrow> (js_error + string) \<times> 'w state" where
  "acquireLock rt file opts st =
     (if locks st file \<noteq> None then (Inl (ELOCKED file), st)
      else
        (case fs_mkdir opts (getLockFile file) st of
           (None, st1) \<Rightarrow>
             (case uuid_v4 rt (world st1) of
                (u, w) \<Rightarrow>
                  (case fs_writeFile opts (getUidFile rt file) u (st1\<lparr>world := w\<rparr>) of
                     (Some err, st2) \<Rightarrow> (Inl err, snd (removeLock rt file opts st2))
                   | (None, st2) \<Rightarrow> (Inr u, st2)))
         | (Some err, st1) \<Rightarrow>
             if stale opts \<le> 0 then (Inl (ELOCKED file), st1)
             else
               (case fs_stat opts (getLockFile file) st1 of
                  (Inl err, st2) \<Rightarrow>
                    if code err = ''ENOENT''
                    then acquireLock rt file (opts\<lparr>stale := 0\<rparr>) st2
                    else (Inl err, st2)
                | (Inr mtime, st2) \<Rightarrow>
                    if mtime \<ge> date_now rt (world st2) - stale opts
                    then (Inl (ELOCKED file), st2)
                    else
                      (case removeLock rt file opts st2 of
                         (Some err, st3) \<Rightarrow> (Inl err, st3)
                       | (None, st3) \<Rightarrow> acquireLock rt file (opts\<lparr>stale := 0\<rparr>) st3))))"
  by pat_completeness auto
termination
  by (relation "measure (\<lambda>(rt, file, opts, st). if 0 < stale opts then 1 else 0)") auto

subsection \<open>The renewal loop: updateLock and unlock\<close>

text \<open>
  \<open>String.prototype.trim\<close> on the bytes of the uid file (the white space of ASCII; the
  Unicode spaces are outside the model).
\<close>

definition is_space :: "char \<Rightarrow> bool" where
  "is_space c = (c \<in> set [CHR 0x20, CHR 0x09, CHR 0x0A, CHR 0x0B, CHR 0x0C, CHR 0x0D])"

definition trim :: "string \<Rightarrow> string" where
  "trim s = rev (dropWhile is_space (rev (dropWhile is_space s)))"

text \<open>
  \<open>updateLock(file, options)\<close> up to \<open>setTimeout\<close>: it reads \<open>locks[file]\<close>, fixes the
  delay (\<open>lock.updateDelay || options.update\<close>) and schedules the timer. With no entry
  for \<open>file\<close> the source throws a \<open>TypeError\<close>: the result \<open>None\<close>.
\<close>

definition updateLock :: "path \<Rightarrow> 'w options \<Rightarrow> 'w state \<Rightarrow> 'w state option" where
  "updateLock file opts st =
     (case locks st file of
        None \<Rightarrow> None
      | Some r \<Rightarrow>
          (let lk = heap st r;
               d = (case updateDelay lk of
                      None \<Rightarrow> update opts
                    | Some d \<Rightarrow> if d \<noteq> 0 then d else update opts);
               tid = next_timer st
           in Some (st\<lparr>heap := (heap st)(r := lk\<lparr>updateDelay := Some d, updateTimeout := Some tid\<rparr>),
                       timers := (timers st)(tid \<mapsto>
                          \<lparr>t_file = file, t_options = opts, t_lock = r, t_delay = d\<rparr>),
                       next_timer := tid + 1\<rparr>)))"

text \<open>
  \<open>unlock(file, options, callback)\<close>, with the defaults of its options (\<open>fs\<close>,
  \<open>resolve: true\<close>) filled in by the caller of the model.
\<close>

definition ENOTACQUIRED :: js_error where
  "ENOTACQUIRED = errcode ''Lock is not acquired'' ''ENOTACQUIRED'' None"

definition unlock ::
  "'w runtime \<Rightarrow> path \<Rightarrow> 'w options \<Rightarrow> 'w state \<Rightarrow> js_error option \<times> 'w state" where
  "unlock rt file0 opts st =
     (case canonicalPath rt file0 opts st of
        (Inl err, st1) \<Rightarrow> (Some err, st1)
      | (Inr file, st1) \<Rightarrow>
          (case locks st1 file of
             None \<Rightarrow> (Some ENOTACQUIRED, st1)
           | Some r \<Rightarrow>
               (let st2 = (case updateTimeout (heap st1 r) of
                             None \<Rightarrow> st1
                           | Some tid \<Rightarrow> st1\<lparr>timers := (timers st1)(tid := None)\<rparr>);
                    st3 = st2\<lparr>heap := (heap st2)(r := (heap st2 r)\<lparr>released := True\<rparr>)\<rparr>;
                    st4 = st3\<lparr>locks := (locks st3)(file := None)\<rparr>
                in removeLock rt file opts st4)))"

text \<open>
  The timer callback of \<open>updateLock\<close> (the function given to \<open>setTimeout\<close>), for the
  pending timer \<open>tid\<close>: it takes \<open>mtime\<close>, clears \<open>lock.updateTimeout\<close> and starts
  \<open>readFile\<close> and \<open>utimes\<close> through \<open>async.parallel\<close>. The result is what
  \<open>async.parallel\<close> will hand to the completion callback: the first error, and
  \<open>result.read\<close>. The two operations run here in the order in which they are
  started, and when both fail the error of \<open>readFile\<close> is the one handed over (the
  source leaves the order of completion open; the completion callback below takes any
  error and any content). A timer that is not pending does not fire: \<open>None\<close>.
\<close>

definition updateLock_tick ::
  "'w runtime \<Rightarrow> nat \<Rightarrow> 'w state \<Rightarrow> ((js_error option \<times> string) \<times> 'w state) option" where
  "updateLock_tick rt tid st =
     (case timers st tid of
        None \<Rightarrow> None
      | Some t \<Rightarrow>
          (let mtime = of_int (date_now rt (world st)) / 1000;
               r = t_lock t;
               st1 = st\<lparr>timers := (timers st)(tid := None),
                        heap := (heap st)(r := (heap st r)\<lparr>updateTimeout := None\<rparr>)\<rparr>
           in case fs_readFile (t_options t) (getUidFile rt (t_file t)) st1 of
                (rd, st2) \<Rightarrow>
                  (case fs_utimes (t_options t) (getLockFile (t_file t)) mtime mtime st2 of
                     (ut, st3) \<Rightarrow>
                       Some ((case rd of Inl e \<Rightarrow> (Some e, []) | Inr s \<Rightarrow> (ut, s)), st3))))"

text \<open>What a renewal tick ends with.\<close>

datatype tick_outcome =
  Ignored
  | Compromised js_error
  | Rescheduled
  | Threw js_error

definition EUPDATE :: js_error where
  "EUPDATE = errcode ''Unable to update lock within the stale threshold'' ''EUPDATE'' None"

definition EMISMATCH :: js_error where
  "EMISMATCH = errcode ''Lock uid mismatch'' ''EMISMATCH'' None"

definition reschedule :: "path \<Rightarrow> 'w options \<Rightarrow> 'w state \<Rightarrow> tick_outcome \<times> 'w state" where
  "reschedule file opts st =
     (case updateLock file opts st of
        None \<Rightarrow> (Threw TypeError, st)
      | Some st1 \<Rightarrow> (Rescheduled, st1))"

text \<open>
  The completion callback of \<open>async.parallel\<close> in \<open>updateLock\<close>, for the lock object
  \<open>r\<close> of the closure, run in the state the process has when both operations are done.
\<close>

definition updateLock_done ::
  "'w runtime \<Rightarrow> path \<Rightarrow> 'w options \<Rightarrow> nat \<Rightarrow> js_error option \<Rightarrow> string \<Rightarrow> 'w state
     \<Rightarrow> tick_outcome \<times> 'w state" where
  "updateLock_done rt file opts r err rd st =
     (if released (heap st r) then (Ignored, st)
      else if lastUpdate (heap st r) \<le> date_now rt (world st) - stale opts then
        (case unlock rt file (opts\<lparr>resolve := False\<rparr>) st of
           (_, st1) \<Rightarrow>
             (Compromised (case updateError (heap st1 r) of Some e \<Rightarrow> e | None \<Rightarrow> EUPDATE), st1))
      else
        (case err of
           Some e \<Rightarrow>
             if code e = ''ENOENT'' then
               (case unlock rt file (opts\<lparr>resolve := False\<rparr>) st of
                  (_, st1) \<Rightarrow> (Compromised e, st1))
             else
               reschedule file opts
                 (st\<lparr>heap := (heap st)(r := (heap st r)\<lparr>updateError := Some e,
                                                          updateDelay := Some 1000\<rparr>)\<rparr>)
         | None \<Rightarrow>
             if trim rd \<noteq> uid (heap st r) then
               (Compromised EMISMATCH,
                st\<lparr>heap := (heap st)(r := (heap st r)\<lparr>released := True\<rparr>),
                   locks := (locks st)(file := None)\<rparr>)
             else
               reschedule file opts
                 (st\<lparr>heap := (heap st)(r := (heap st r)\<lparr>lastUpdate := date_now rt (world st),
                                                          updateError := None,
                                                          updateDelay := None\<rparr>)\<rparr>)))"

text \<open>
  A whole tick with nothing in between: the timer callback, and at once the completion
  callback with what the two operations reported.
\<close>

definition updateLock_run ::
  "'w runtime \<Rightarrow> nat \<Rightarrow> 'w state \<Rightarrow> (tick_outcome \<times> 'w state) option" where
  "updateLock_run rt tid st =
     (case timers st tid of
        None \<Rightarrow> None
      | Some t \<Rightarrow>
          (case updateLock_tick rt tid st of
             None \<Rightarrow> None
           | Some ((err, rd), st1) \<Rightarrow>
               Some (updateLock_done rt (t_file t) (t_options t) (t_lock t) err rd st1)))"

subsection \<open>lock and the release function it returns\<close>

text \<open>
  The options a caller passes to \<open>lock\<close>: \<open>None\<close> is a property left out (\<open>extend\<close> keeps
  the default), \<open>Some n\<close> a number. \<open>retries\<close> is the number of retries (given as
  a number, or as the \<open>retries\<close> of an object for the \<open>retry\<close> package, whose delays
  are not part of the model). \<open>fs\<close> is the object passed, or \<open>graceful-fs\<close>.
\<close>

record 'w user_options =
  u_stale :: "int option"
  u_update :: "int option"
  u_resolve :: "bool option"
  u_retries :: "nat option"
  u_fs :: "'w fs_api"

text \<open>\<open>Math.round\<close> rounds to the nearest integer, a half upwards.\<close>

definition Math_round :: "rat \<Rightarrow> int" where
  "Math_round x = \<lfloor>x + 1 / 2\<rfloor>"

text \<open>
  The first part of \<open>lock\<close>: the defaults and the clamping. For a number \<open>n\<close>,
  \<open>n || 0\<close> is \<open>n\<close>.
\<close>

definition lock_options :: "'w user_options \<Rightarrow> 'w options" where
  "lock_options u =
     (let stale0 = (case u_stale u of None \<Rightarrow> 10000 | Some n \<Rightarrow> n);
          update0 = (case u_update u of None \<Rightarrow> 5000 | Some n \<Rightarrow> n);
          stale1 = max stale0 2000;
          update1 = max (min update0 (Math_round (of_int stale1 / 2))) 1000
      in \<lparr>stale = stale1,
          update = update1,
          resolve = (case u_resolve u of None \<Rightarrow> True | Some b \<Rightarrow> b),
          retries = (case u_retries u of None \<Rightarrow> 0 | Some n \<Rightarrow> n),
          fs = u_fs u\<rparr>)"

text \<open>
  The \<open>retry\<close> package: \<open>operation.retry(err)\<close> records the error and asks for another
  attempt while attempts are left; \<open>operation.mainError()\<close> is the recorded error whose
  message is the most frequent, the latest one on a tie (\<open>null\<close> with no error).
\<close>

fun mainError_loop ::
  "js_error list \<Rightarrow> (string \<Rightarrow> nat) \<Rightarrow> js_error option \<Rightarrow> nat \<Rightarrow> js_error option" where
  "mainError_loop [] counts mainErr mainErrorCount = mainErr"
| "mainError_loop (e # es) counts mainErr mainErrorCount =
     (let count = counts (message e) + 1;
          counts1 = counts(message e := count)
      in if count \<ge> mainErrorCount then mainError_loop es counts1 (Some e) count
         else mainError_loop es counts1 mainErr mainErrorCount)"

definition mainError :: "js_error list \<Rightarrow> js_error option" where
  "mainError errs = mainError_loop errs (\<lambda>_. 0) None 0"

text \<open>
  \<open>operation.attempt\<close>: \<open>acquireLock\<close>, again after an error while \<open>n\<close> retries are left;
  \<open>errs\<close> are the errors recorded so far.
\<close>

fun attempt ::
  "'w runtime \<Rightarrow> path \<Rightarrow> 'w options \<Rightarrow> nat \<Rightarrow> js_error list \<Rightarrow> 'w state
     \<Rightarrow> (js_error option + string) \<times> 'w state" where
  "attempt rt file opts n errs st =
     (case acquireLock rt file opts st of
        (Inr u, st1) \<Rightarrow> (Inr u, st1)
      | (Inl err, st1) \<Rightarrow>
          (case n of
             0 \<Rightarrow> (Inl (mainError (errs @ [err])), st1)
           | Suc m \<Rightarrow> attempt rt file opts m (errs @ [err]) st1))"

text \<open>The function \<open>lock\<close> hands to its callback: the closure over \<open>file\<close>, \<open>options\<close>, \<open>lock\<close>.\<close>

record 'w release_fn =
  rel_file :: path
  rel_options :: "'w options"
  rel_lock :: nat

definition lock ::
  "'w runtime \<Rightarrow> path \<Rightarrow> 'w user_options \<Rightarrow> 'w state
     \<Rightarrow> (js_error option + 'w release_fn) \<times> 'w state" where
  "lock rt file0 u st =
     (let opts = lock_options u in
      case canonicalPath rt file0 opts st of
        (Inl err, st1) \<Rightarrow> (Inl (Some err), st1)
      | (Inr file, st1) \<Rightarrow>
          (case attempt rt file opts (retries opts) [] st1 of
             (Inl e, st2) \<Rightarrow> (Inl e, st2)
           | (Inr u1, st2) \<Rightarrow>
               (let r = next_ref st2;
                    lk = \<lparr>uid = u1, options = opts, lastUpdate = date_now rt (world st2),
                          released = False, updateError = None, updateDelay = None,
                          updateTimeout = None\<rparr>;
                    st3 = st2\<lparr>locks := (locks st2)(file \<mapsto> r),
                             heap := (heap st2)(r := lk),
                             next_ref := r + 1\<rparr>
                in case updateLock file opts st3 of
                     None \<Rightarrow> (Inl (Some TypeError), st3)
                   | Some st4 \<Rightarrow>
                       (Inr \<lparr>rel_file = file, rel_options = opts, rel_lock = r\<rparr>, st4))))"

definition ERELEASED :: js_error where
  "ERELEASED = errcode ''Lock is already released'' ''ERELEASED'' None"

definition release ::
  "'w runtime \<Rightarrow> 'w release_fn \<Rightarrow> 'w state \<Rightarrow> js_error option \<times> 'w state" where
  "release rt rel st =
     (if released (heap st (rel_lock rel)) then (Some ERELEASED, st)
      else unlock rt (rel_file rel) ((rel_options rel)\<lparr>resolve := False\<rparr>) st)"

subsection \<open>A reference filesystem and runtime\<close>

text \<open>
  Modelled from the spec: the primitives behind \<open>options.fs\<close> (\<open>graceful-fs\<close>),
  \<open>path.normalize\<close>, \<open>path.join\<close>, \<open>uuid.v4\<close> and the clock are not code of this
  module; the spec takes them as collaborators with POSIX-like behaviour, each primitive
  reporting a distinguishable not-found condition. This instance of the parameters is an
  in-memory disk: a table from paths to directories and files, each with its modification
  time. \<open>mkdir\<close> creates a directory or fails when the entry exists, \<open>rmdir\<close> removes
  an empty directory, \<open>unlink\<close> removes a file. It is what the statements about the
  state of the disk are made on, and what the concrete runs use. The time of an entry
  is set when it is created or written and by \<open>utimes\<close>; the effect of adding or
  removing an entry on the time of its parent directory is not tracked. Paths are already
  normal here: \<open>path.normalize\<close> is the identity and \<open>path.join\<close> puts a slash between its
  arguments. \<open>uuid.v4\<close> takes the next token of a supply.
\<close>

datatype node = Dir (mtime: int) | File (mtime: int) (content: string)

record mem_world =
  disk :: "(path \<times> node) list"
  clock :: int
  entropy :: "string list"

definition fs_error :: "string \<Rightarrow> js_error" where
  "fs_error c = Error c c None"

definition dirname :: "path \<Rightarrow> path" where
  "dirname p = rev (tl (dropWhile (\<lambda>c. c \<noteq> CHR ''/'') (rev p)))"

text \<open>The parent of a new entry must be a directory; the empty name is the root.\<close>

definition parent_ok :: "mem_world \<Rightarrow> path \<Rightarrow> bool" where
  "parent_ok w p =
     (dirname p = [] \<or>
      (case map_of (disk w) (dirname p) of Some (Dir _) \<Rightarrow> True | _ \<Rightarrow> False))"

definition has_children :: "mem_world \<Rightarrow> path \<Rightarrow> bool" where
  "has_children w p = list_ex (\<lambda>(q, n). dirname q = p) (disk w)"

definition remove_entry :: "path \<Rightarrow> mem_world \<Rightarrow> mem_world" where
  "remove_entry p w = w\<lparr>disk := filter (\<lambda>(q, n). q \<noteq> p) (disk w)\<rparr>"

definition set_entry :: "path \<Rightarrow> node \<Rightarrow> mem_world \<Rightarrow> mem_world" where
  "set_entry p n w =
     w\<lparr>disk := map (\<lambda>(q, n0). if q = p then (q, n) else (q, n0)) (disk w)\<rparr>"

definition mem_mkdir :: "path \<Rightarrow> mem_world \<Rightarrow> js_error option \<times> mem_world" where
  "mem_mkdir p w =
     (case map_of (disk w) p of
        Some _ \<Rightarrow> (Some (fs_error ''EEXIST''), w)
      | None \<Rightarrow>
          if \<not> parent_ok w p then (Some (fs_error ''ENOENT''), w)
          else (None, w\<lparr>disk := (p, Dir (clock w)) # disk w\<rparr>))"

definition mem_writeFile :: "path \<Rightarrow> string \<Rightarrow> mem_world \<Rightarrow> js_error option \<times> mem_world" where
  "mem_writeFile p s w =
     (case map_of (disk w) p of
        Some (Dir _) \<Rightarrow> (Some (fs_error ''EISDIR''), w)
      | Some (File _ _) \<Rightarrow> (None, set_entry p (File (clock w) s) w)
      | None \<Rightarrow>
          if \<not> parent_ok w p then (Some (fs_error ''ENOENT''), w)
          else (None, w\<lparr>disk := (p, File (clock w) s) # disk w\<rparr>))"

definition mem_stat :: "path \<Rightarrow> mem_world \<Rightarrow> (js_error + int) \<times> mem_world" where
  "mem_stat p w =
     (case map_of (disk w) p of
        None \<Rightarrow> (Inl (fs_error ''ENOENT''), w)
      | Some n \<Rightarrow> (Inr (mtime n), w))"

definition mem_unlink :: "path \<Rightarrow> mem_world \<Rightarrow> js_error option \<times> mem_world" where
  "mem_unlink p w =
     (case map_of (disk w) p of
        None \<Rightarrow> (Some (fs_error ''ENOENT''), w)
      | Some (Dir _) \<Rightarrow> (Some (fs_error ''EISDIR''), w)
      | Some (File _ _) \<Rightarrow> (None, remove_entry p w))"

definition mem_rmdir :: "path \<Rightarrow> mem_world \<Rightarrow> js_error option \<times> mem_world" where
  "mem_rmdir p w =
     (case map_of (disk w) p of
        None \<Rightarrow> (Some (fs_error ''ENOENT''), w)
      | Some (File _ _) \<Rightarrow> (Some (fs_error ''ENOTDIR''), w)
      | Some (Dir _) \<Rightarrow>
          if has_children w p then (Some (fs_error ''ENOTEMPTY''), w)
          else (None, remove_entry p w))"

definition mem_readFile :: "path \<Rightarrow> mem_world \<Rightarrow> (js_error + string) \<times> mem_world" where
  "mem_readFile p w =
     (case map_of (disk w) p of
        None \<Rightarrow> (Inl (fs_error ''ENOENT''), w)
      | Some (Dir _) \<Rightarrow> (Inl (fs_error ''EISDIR''), w)
      | Some (File _ s) \<Rightarrow> (Inr s, w))"

definition mem_utimes :: "path \<Rightarrow> rat \<Rightarrow> rat \<Rightarrow> mem_world \<Rightarrow> js_error option \<times> mem_world" where
  "mem_utimes p a m w =
     (case map_of (disk w) p of
        None \<Rightarrow> (Some (fs_error ''ENOENT''), w)
      | Some (Dir _) \<Rightarrow> (None, set_entry p (Dir \<lfloor>m * 1000\<rfloor>) w)
      | Some (File _ s) \<Rightarrow> (None, set_entry p (File \<lfloor>m * 1000\<rfloor> s) w))"

definition mem_realpath :: "path \<Rightarrow> mem_world \<Rightarrow> (js_error + path) \<times> mem_world" where
  "mem_realpath p w =
     (case map_of (disk w) p of
        None \<Rightarrow> (Inl (fs_error ''ENOENT''), w)
      | Some _ \<Rightarrow> (Inr p, w))"

definition mem_fs :: "mem_world fs_api" where
  "mem_fs =
     \<lparr>mkdir = mem_mkdir, writeFile = mem_writeFile, stat = mem_stat, unlink = mem_unlink,
      rmdir = mem_rmdir, readFile = mem_readFile, utimes = mem_utimes,
      realpath = mem_realpath\<rparr>"

definition mem_uuid :: "mem_world \<Rightarrow> string \<times> mem_world" where
  "mem_uuid w = (case entropy w of [] \<Rightarrow> ([], w) | u # us \<Rightarrow> (u, w\<lparr>entropy := us\<rparr>))"

definition mem_rt :: "mem_world runtime" where
  "mem_rt =
     \<lparr>date_now = clock, uuid_v4 = mem_uuid, path_normalize = (\<lambda>p. p),
      path_join = (\<lambda>a b. a @ ''/'' @ b)\<rparr>"

text \<open>A lock object for the references not yet in use, and a process that holds nothing.\<close>

definition mem_opts :: "mem_world options" where
  "mem_opts = \<lparr>stale = 10000, update = 5000, resolve = True, retries = 0, fs = mem_fs\<rparr>"

definition no_lock :: "mem_world lock_obj" where
  "no_lock =
     \<lparr>uid = [], options = mem_opts, lastUpdate = 0, released = False, updateError = None,
      updateDelay = None, updateTimeout = None\<rparr>"

definition idle :: "mem_world \<Rightarrow> mem_world state" where
  "idle w =
     \<lparr>world = w, locks = Map.empty, heap = (\<lambda>_. no_lock), next_ref = 0,
      timers = Map.empty, next_timer = 0, calls = []\<rparr>"

text \<open>A disk with the file \<open>/tmp/a\<close>, at time 100000, and the options of a caller who sets none.\<close>

definition world0 :: mem_world where
  "world0 =
     \<lparr>disk = [(''/tmp'', Dir 0), (''/tmp/a'', File 0 ''data'')], clock = 100000,
      entropy = [''tok1'', ''tok2'']\<rparr>"

definition defaults :: "mem_world user_options" where
  "defaults =
     \<lparr>u_stale = None, u_update = None, u_resolve = None, u_retries = None, u_fs = mem_fs\<rparr>"

text \<open>
  The same disk with the lock of another holder on \<open>/tmp/a\<close>: last refreshed exactly
  10000 ms ago, and last refreshed long ago.
\<close>

definition world_edge :: mem_world where
  "world_edge =
     \<lparr>disk = [(''/tmp/a.lock/.uid'', File 90000 ''other''), (''/tmp/a.lock'', Dir 90000),
              (''/tmp'', Dir 0), (''/tmp/a'', File 0 ''data'')],
      clock = 100000, entropy = [''tok1'', ''tok2'']\<rparr>"

definition world_stale :: mem_world where
  "world_stale =
     \<lparr>disk = [(''/tmp/a.lock/.uid'', File 0 ''other''), (''/tmp/a.lock'', Dir 0),
              (''/tmp'', Dir 0), (''/tmp/a'', File 0 ''data'')],
      clock = 100000, entropy = [''tok1'', ''tok2'']\<rparr>"



text \<open>
  The process after \<open>lock('/tmp/a', callback)\<close> on \<open>world0\<close>, the release function it
  returned, and the process once the first renewal timer has fired, 5000 ms later.
\<close>

definition held_lock :: "mem_world lock_obj" where
  "held_lock =
     \<lparr>uid = ''tok1'', options = mem_opts, lastUpdate = 100000, released = False,
      updateError = None, updateDelay = Some 5000, updateTimeout = Some 0\<rparr>"

definition held_world :: mem_world where
  "held_world =
     \<lparr>disk = [(''/tmp/a.lock/.uid'', File 100000 ''tok1''), (''/tmp/a.lock'', Dir 100000),
              (''/tmp'', Dir 0), (''/tmp/a'', File 0 ''data'')],
      clock = 100000, entropy = [''tok2'']\<rparr>"

definition held0 :: "mem_world state" where
  "held0 =
     \<lparr>world = held_world,
      locks = [''/tmp/a'' \<mapsto> 0],
      heap = (\<lambda>_. no_lock)(0 := held_lock),
      next_ref = 1,
      timers = [0 \<mapsto> \<lparr>t_file = ''/tmp/a'', t_options = mem_opts, t_lock = 0, t_delay = 5000\<rparr>],
      next_timer = 1,
      calls = [Realpath ''/tmp/a'', Mkdir ''/tmp/a.lock'',
               WriteFile ''/tmp/a.lock/.uid'' ''tok1'']\<rparr>"

definition rel0 :: "mem_world release_fn" where
  "rel0 = \<lparr>rel_file = ''/tmp/a'', rel_options = mem_opts, rel_lock = 0\<rparr>"

definition fired0 :: "mem_world state" where
  "fired0 =
     held0\<lparr>world := held_world\<lparr>disk := [(''/tmp/a.lock/.uid'', File 100000 ''tok1''),
                                          (''/tmp/a.lock'', Dir 105000),
                                          (''/tmp'', Dir 0), (''/tmp/a'', File 0 ''data'')],
                                 clock := 105000\<rparr>,
           heap := (\<lambda>_. no_lock)(0 := held_lock\<lparr>updateTimeout := None\<rparr>),
           timers := Map.empty,
           calls := calls held0 @ [ReadFile ''/tmp/a.lock/.uid'', Utimes ''/tmp/a.lock'' 105 105]\<rparr>"

text \<open>Later moments of the same process: the clock is set, nothing else changes.\<close>

definition at_time :: "int \<Rightarrow> mem_world state \<Rightarrow> mem_world state" where
  "at_time t st = st\<lparr>world := (world st)\<lparr>clock := t\<rparr>\<rparr>"

text \<open>
  The process after the caller released the lock while the tick of \<open>fired0\<close> was in
  flight.
\<close>

definition released0 :: "mem_world state" where
  "released0 = snd (release mem_rt rel0 fired0)"

text \<open>
  A filesystem passed as \<open>options.fs\<close> whose \<open>utimes\<close> fails with \<open>EIO\<close>, a caller who
  passes it with \<open>stale: 2000\<close> and \<open>update: 1000\<close>, the process after that caller's
  \<open>lock('/tmp/a', ...)\<close> on \<open>world0\<close>, and the process after the first tick, run
  1001 ms later.
\<close>

definition flaky_fs :: "mem_world fs_api" where
  "flaky_fs = mem_fs\<lparr>utimes := (\<lambda>p a m w. (Some (fs_error ''EIO''), w))\<rparr>"

definition flaky_user :: "mem_world user_options" where
  "flaky_user =
     \<lparr>u_stale = Some 2000, u_update = Some 1000, u_resolve = None, u_retries = None,
      u_fs = flaky_fs\<rparr>"

definition flaky_held :: "mem_world state" where
  "flaky_held = snd (lock mem_rt ''/tmp/a'' flaky_user (idle world0))"

definition flaky_retry :: "mem_world state" where
  "flaky_retry =
     (case updateLock_run mem_rt 0 (at_time 101001 flaky_held) of
        None \<Rightarrow> flaky_held
      | Some (out, st) \<Rightarrow> st)"

text \<open>
  Another party overwrites the uid file of \<open>/tmp/a\<close> with its own token; the process
  of the flaky caller after a first tick that meets the overwritten file.
\<close>

definition steal :: "mem_world state \<Rightarrow> mem_world state" where
  "steal st = st\<lparr>world := snd (mem_writeFile ''/tmp/a.lock/.uid'' ''stolen'' (world st))\<rparr>"

definition flaky_stolen :: "mem_world state" where
  "flaky_stolen =
     (case updateLock_run mem_rt 0 (steal (at_time 101001 flaky_held)) of
        None \<Rightarrow> flaky_held
      | Some (out, st) \<Rightarrow> st)"

text \<open>The process of \<open>held0\<close> after another party has put a file into the lock directory.\<close>

definition crowded0 :: "mem_world state" where
  "crowded0 = held0\<lparr>world := snd (mem_writeFile ''/tmp/a.lock/other'' ''x'' (world held0))\<rparr>"

text \<open>
  What one acquisition on the reference filesystem leaves when neither the lock directory
  nor anything under it was there: the directory and the uid file on success, the disk
  as it was on failure; the clock is not touched.
\<close>

definition fresh_outcome ::
  "path \<Rightarrow> mem_world state \<Rightarrow> ('e + string) \<times> mem_world state \<Rightarrow> bool" where
  "fresh_outcome file st res =
     (clock (world (snd res)) = clock (world st) \<and>
      (case fst res of
         Inl e \<Rightarrow> disk (world (snd res)) = disk (world st)
       | Inr u \<Rightarrow>
           disk (world (snd res)) =
             (getUidFile mem_rt file, File (clock (world st)) u) #
             (getLockFile file, Dir (clock (world st))) # disk (world st)))"

subsection \<open>The process as a whole\<close>

text \<open>
  The calls of one process, in any order: \<open>lock\<close>, \<open>unlock\<close>, the release functions
  that \<open>lock\<close> has returned (\<open>H\<close>), the timer callbacks of pending timers and the
  completion callbacks of the ticks in flight (\<open>F\<close>: path, options and lock object of
  each), with any error and content, and changes of the world by others. The path that
  \<open>lock\<close> resolves is normal, as the results of \<open>realpath\<close> and \<open>path.normalize\<close>
  are. The invariant: a registered lock object is not released, a path has one lock
  object, a pending timer belongs to a registered lock object that records it, a tick in
  flight on an unreleased lock object has no timer beside it, and an unreleased handle is
  registered under its path.
\<close>

type_synonym 'w flight = "path \<times> 'w options \<times> nat"

definition reg_ok :: "'w runtime \<Rightarrow> 'w state \<Rightarrow> bool" where
  "reg_ok rt st \<longleftrightarrow>
     (\<forall>f r. locks st f = Some r \<longrightarrow>
        \<not> released (heap st r) \<and> r < next_ref st \<and> path_normalize rt f = f)"

definition reg_inj :: "'w state \<Rightarrow> bool" where
  "reg_inj st \<longleftrightarrow> (\<forall>f f' r. locks st f = Some r \<longrightarrow> locks st f' = Some r \<longrightarrow> f = f')"

definition tim_ok :: "'w state \<Rightarrow> bool" where
  "tim_ok st \<longleftrightarrow>
     (\<forall>tid t. timers st tid = Some t \<longrightarrow>
        tid < next_timer st \<and> locks st (t_file t) = Some (t_lock t) \<and>
        updateTimeout (heap st (t_lock t)) = Some tid)"

definition fly_ok :: "'w state \<Rightarrow> 'w flight set \<Rightarrow> bool" where
  "fly_ok st F \<longleftrightarrow>
     (\<forall>f ops r. (f, ops, r) \<in> F \<longrightarrow>
        r < next_ref st \<and>
        (\<not> released (heap st r) \<longrightarrow>
           locks st f = Some r \<and> (\<forall>tid t. timers st tid = Some t \<longrightarrow> t_lock t \<noteq> r)))"

definition fly_one :: "'w flight set \<Rightarrow> bool" where
  "fly_one F \<longleftrightarrow>
     (\<forall>f ops r f' ops'. (f, ops, r) \<in> F \<longrightarrow> (f', ops', r) \<in> F \<longrightarrow> f' = f \<and> ops' = ops)"

definition han_ok :: "'w state \<Rightarrow> 'w release_fn set \<Rightarrow> bool" where
  "han_ok st H \<longleftrightarrow>
     (\<forall>rel \<in> H. rel_lock rel < next_ref st \<and>
        (\<not> released (heap st (rel_lock rel)) \<longrightarrow>
           locks st (rel_file rel) = Some (rel_lock rel)))"

definition sys_inv ::
  "'w runtime \<Rightarrow> 'w state \<Rightarrow> 'w flight set \<Rightarrow> 'w release_fn set \<Rightarrow> bool" where
  "sys_inv rt st F H \<longleftrightarrow>
     reg_ok rt st \<and> reg_inj st \<and> tim_ok st \<and> fly_ok st F \<and> fly_one F \<and> han_ok st H"

inductive reach ::
  "'w runtime \<Rightarrow> 'w state \<Rightarrow> 'w flight set \<Rightarrow> 'w release_fn set \<Rightarrow> bool"
  for rt :: "'w runtime" where
  start: "locks st = Map.empty \<Longrightarrow> timers st = Map.empty \<Longrightarrow> reach rt st {} {}"
| env: "reach rt st F H \<Longrightarrow> reach rt (st\<lparr>world := w\<rparr>) F H"
| do_lock:
    "reach rt st F H \<Longrightarrow>
     (\<forall>f st1. canonicalPath rt file0 (lock_options u) st = (Inr f, st1) \<longrightarrow>
        path_normalize rt f = f) \<Longrightarrow>
     lock rt file0 u st = (res, st') \<Longrightarrow>
     reach rt st' F (case res of Inl e \<Rightarrow> H | Inr rel \<Rightarrow> insert rel H)"
| do_unlock: "reach rt st F H \<Longrightarrow> reach rt (snd (unlock rt file0 opts st)) F H"
| do_release: "reach rt st F H \<Longrightarrow> rel \<in> H \<Longrightarrow> reach rt (snd (release rt rel st)) F H"
| fire:
    "reach rt st F H \<Longrightarrow> timers st tid = Some t \<Longrightarrow>
     updateLock_tick rt tid st = Some (res, st') \<Longrightarrow>
     reach rt st' (insert (t_file t, t_options t, t_lock t) F) H"
| complete:
    "reach rt st F H \<Longrightarrow> (f, ops, r) \<in> F \<Longrightarrow>
     reach rt (snd (updateLock_done rt f ops r err rd st)) (F - {(f, ops, r)}) H"

text \<open>What \<open>unlock\<close> does to the process before it calls \<open>removeLock\<close>.\<close>

definition unregister :: "path \<Rightarrow> nat \<Rightarrow> 'w state \<Rightarrow> 'w state" where
  "unregister file r st =
     st\<lparr>timers := (case updateTimeout (heap st r) of
                       None \<Rightarrow> timers st
                     | Some tid \<Rightarrow> (timers st)(tid := None)),
         heap := (heap st)(r := (heap st r)\<lparr>released := True\<rparr>),
         locks := (locks st)(file := None)\<rparr>"

declare acquireLock.simps [simp del]
declare attempt.simps [simp del]

section \<open>Properties\<close>

subsection \<open>The primitives' call sites and removeLock\<close>

lemma fs_unlink_eq:
  "fs_unlink opts p st =
     (fst (unlink (fs opts) p (world st)),
      st\<lparr>world := snd (unlink (fs opts) p (world st)), calls := calls st @ [Unlink p]\<rparr>)"
  by (simp add: fs_unlink_def split: prod.splits)

lemma fs_rmdir_eq:
  "fs_rmdir opts p st =
     (fst (rmdir (fs opts) p (world st)),
      st\<lparr>world := snd (rmdir (fs opts) p (world st)), calls := calls st @ [Rmdir p]\<rparr>)"
  by (simp add: fs_rmdir_def split: prod.splits)

lemma fs_mkdir_eq:
  "fs_mkdir opts p st =
     (fst (mkdir (fs opts) p (world st)),
      st\<lparr>world := snd (mkdir (fs opts) p (world st)), calls := calls st @ [Mkdir p]\<rparr>)"
  by (simp add: fs_mkdir_def split: prod.splits)

lemma fs_writeFile_eq:
  "fs_writeFile opts p s st =
     (fst (writeFile (fs opts) p s (world st)),
      st\<lparr>world := snd (writeFile (fs opts) p s (world st)), calls := calls st @ [WriteFile p s]\<rparr>)"
  by (simp add: fs_writeFile_def split: prod.splits)

lemma fs_stat_eq:
  "fs_stat opts p st =
     (fst (stat (fs opts) p (world st)),
      st\<lparr>world := snd (stat (fs opts) p (world st)), calls := calls st @ [Stat p]\<rparr>)"
  by (simp add: fs_stat_def split: prod.splits)

lemma fs_readFile_eq:
  "fs_readFile opts p st =
     (fst (readFile (fs opts) p (world st)),
      st\<lparr>world := snd (readFile (fs opts) p (world st)), calls := calls st @ [ReadFile p]\<rparr>)"
  by (simp add: fs_readFile_def split: prod.splits)

lemma fs_utimes_eq:
  "fs_utimes opts p a m st =
     (fst (utimes (fs opts) p a m (world st)),
      st\<lparr>world := snd (utimes (fs opts) p a m (world st)), calls := calls st @ [Utimes p a m]\<rparr>)"
  by (simp add: fs_utimes_def split: prod.splits)

lemma fs_realpath_eq:
  "fs_realpath opts p st =
     (fst (realpath (fs opts) p (world st)),
      st\<lparr>world := snd (realpath (fs opts) p (world st)), calls := calls st @ [Realpath p]\<rparr>)"
  by (simp add: fs_realpath_def split: prod.splits)

lemmas fs_eqs = fs_unlink_eq fs_rmdir_eq fs_mkdir_eq fs_writeFile_eq fs_stat_eq fs_readFile_eq
  fs_utimes_eq fs_realpath_eq

text \<open>removeLock touches the world and the log only.\<close>

lemma removeLock_frame:
  "locks (snd (removeLock rt file opts st)) = locks st"
  "heap (snd (removeLock rt file opts st)) = heap st"
  "timers (snd (removeLock rt file opts st)) = timers st"
  "next_ref (snd (removeLock rt file opts st)) = next_ref st"
  "next_timer (snd (removeLock rt file opts st)) = next_timer st"
  by (simp_all add: removeLock_def fs_eqs case_prod_beta)


lemma removeLock_stale_irrelevant:
  "removeLock rt file (opts\<lparr>stale := s\<rparr>) st = removeLock rt file opts st"
  by (simp add: removeLock_def fs_eqs case_prod_beta)

text \<open>With the staleness check off, acquireLock is one attempt: it does not call itself.\<close>

lemma acquireLock_bare:
  "stale opts \<le> 0 \<Longrightarrow>
   acquireLock rt file opts st =
     (if locks st file \<noteq> None then (Inl (ELOCKED file), st)
      else
        (case fs_mkdir opts (getLockFile file) st of
           (None, st1) \<Rightarrow>
             (case uuid_v4 rt (world st1) of
                (u, w) \<Rightarrow>
                  (case fs_writeFile opts (getUidFile rt file) u (st1\<lparr>world := w\<rparr>) of
                     (Some err, st2) \<Rightarrow> (Inl err, snd (removeLock rt file opts st2))
                   | (None, st2) \<Rightarrow> (Inr u, st2)))
         | (Some err, st1) \<Rightarrow> (Inl (ELOCKED file), st1)))"
  by (subst acquireLock.simps) (simp split: prod.splits option.splits)

lemmas mem_prims = mem_mkdir_def mem_writeFile_def mem_stat_def mem_unlink_def mem_rmdir_def
  mem_readFile_def mem_utimes_def mem_realpath_def mem_uuid_def parent_ok_def has_children_def
  remove_entry_def set_entry_def dirname_def fs_error_def

lemmas mem_run = fs_eqs mem_fs_def mem_rt_def mem_opts_def idle_def getLockFile_def getUidFile_def
  removeLock_def not_ENOENT_def ELOCKED_def errcode_def mem_prims

subsection \<open>Acquisition\<close>

text \<open>
  C4. A call of \<open>acquireLock\<close> for a path that is in the registry \<open>locks\<close> fails at once
  with \<open>ELOCKED\<close>, and the state it returns is the state it was given: the world is the
  same and the log of calls to \<open>options.fs\<close> has no new entry, so no primitive was
  called. (The public \<open>lock\<close> resolves the path first, through \<open>realpath\<close> when
  \<open>resolve\<close> is on; the claim is about the acquisition on the resolved path.)
\<close>

theorem acquireLock_registered:
  "locks st file \<noteq> None \<Longrightarrow>
     acquireLock rt file opts st = (Inl (ELOCKED file), st) \<and> code (ELOCKED file) = ''ELOCKED''"
  by (subst acquireLock.simps) (simp add: ELOCKED_def errcode_def)

theorem acquireLock_registered_witness:
  "acquireLock mem_rt ''/tmp/a'' mem_opts ((idle world0)\<lparr>locks := [''/tmp/a'' \<mapsto> 0]\<rparr>)
     = (Inl (ELOCKED ''/tmp/a''), (idle world0)\<lparr>locks := [''/tmp/a'' \<mapsto> 0]\<rparr>)"
  using acquireLock_registered
    [of "(idle world0)\<lparr>locks := [''/tmp/a'' \<mapsto> 0]\<rparr>" "''/tmp/a''" mem_rt mem_opts]
  by simp

lemma acquireLock_fast_fail:
  "locks st file \<noteq> None \<Longrightarrow> acquireLock rt file opts st = (Inl (ELOCKED file), st)"
  by (subst acquireLock.simps) simp

lemma mainError_loop_same:
  "mainErrorCount \<le> counts (message e) + 1 \<Longrightarrow>
     mainError_loop (replicate (Suc k) e) counts mainErr mainErrorCount = Some e"
proof (induction k arbitrary: counts mainErr mainErrorCount)
  case 0
  then show ?case by (simp add: Let_def)
next
  case (Suc k)
  have "mainError_loop (replicate (Suc (Suc k)) e) counts mainErr mainErrorCount =
      mainError_loop (replicate (Suc k) e) (counts(message e := counts (message e) + 1))
        (Some e) (counts (message e) + 1)"
    using Suc.prems by (simp add: Let_def)
  also have "\<dots> = Some e"
    by (rule Suc.IH) simp
  finally show ?case .
qed

lemma mainError_same: "mainError (replicate (Suc n) e) = Some e"
  unfolding mainError_def by (rule mainError_loop_same) simp

lemma attempt_registered:
  "locks st file \<noteq> None \<Longrightarrow>
     attempt rt file opts n errs st =
       (Inl (mainError (errs @ replicate (Suc n) (ELOCKED file))), st)"
proof (induction n arbitrary: errs)
  case 0
  then show ?case by (subst attempt.simps) (simp add: acquireLock_fast_fail)
next
  case (Suc n)
  then show ?case
    by (subst attempt.simps) (simp add: acquireLock_fast_fail)
qed

text \<open>
  The public \<open>lock\<close> on a path whose identity is registered: with \<open>resolve\<close> off no
  primitive is called; with \<open>resolve\<close> on the one call is the \<open>realpath\<close> of the path
  resolver.
\<close>

lemma lock_registered_no_resolve:
  assumes "u_resolve u = Some False" and "locks st (path_normalize rt file0) \<noteq> None"
  shows "lock rt file0 u st = (Inl (Some (ELOCKED (path_normalize rt file0))), st)"
  using assms
  by (simp add: lock_def Let_def canonicalPath_def lock_options_def attempt_registered
        mainError_same del: replicate.simps replicate_Suc)

lemma lock_registered_resolve:
  assumes "u_resolve u \<noteq> Some False"
    and "realpath (u_fs u) file0 (world st) = (Inr f, w)"
    and "locks st f \<noteq> None"
  shows "lock rt file0 u st =
           (Inl (Some (ELOCKED f)), st\<lparr>world := w, calls := calls st @ [Realpath file0]\<rparr>)"
proof -
  have r: "resolve (lock_options u)" and f: "fs (lock_options u) = u_fs u"
    using assms(1) by (auto simp: lock_options_def Let_def split: option.splits)
  show ?thesis
    using assms(2,3) r f
    by (simp add: lock_def canonicalPath_def fs_eqs attempt_registered mainError_same
          del: replicate.simps replicate_Suc)
qed

text \<open>
  C1, as the code has it. The claim puts the boundary at \<open>now - mtime < stale\<close>; the code
  tests \<open>stat.mtime.getTime() >= Date.now() - options.stale\<close>, so a lock refreshed exactly
  \<open>stale\<close> ms ago is still held: on \<open>world_edge\<close> the call fails with \<open>ELOCKED\<close> after
  \<open>mkdir\<close> and \<open>stat\<close>, and nothing is removed.
\<close>

theorem acquireLock_edge:
  "stat mem_fs (getLockFile ''/tmp/a'') world_edge = (Inr 90000, world_edge)
   \<and> \<not> (date_now mem_rt world_edge - 90000 < stale mem_opts)
   \<and> fst (acquireLock mem_rt ''/tmp/a'' mem_opts (idle world_edge)) = Inl (ELOCKED ''/tmp/a'')
   \<and> calls (snd (acquireLock mem_rt ''/tmp/a'' mem_opts (idle world_edge))) =
        [Mkdir ''/tmp/a.lock'', Stat ''/tmp/a.lock'']
   \<and> world (snd (acquireLock mem_rt ''/tmp/a'' mem_opts (idle world_edge))) = world_edge"
  apply (simp only: acquireLock.simps [of mem_rt "''/tmp/a''" mem_opts "idle world_edge"])
  apply (simp add: mem_run world_edge_def)
  done

text \<open>
  C1, amended. For a contended acquisition (the path is not in the registry and \<open>mkdir\<close>
  fails) with \<open>0 < stale\<close> whose \<open>stat\<close> succeeds: if \<open>now - mtime \<le> stale\<close> the call
  fails with \<open>ELOCKED\<close>; otherwise \<open>removeLock\<close> runs (unlink of the uid file, then rmdir
  of the lock directory, \<open>ENOENT\<close> ignored); if that fails with another error the call
  fails with this error, and otherwise the acquisition is made once more, without a
  staleness check: one \<open>mkdir\<close>, then the write of the token, or \<open>ELOCKED\<close>.
\<close>

theorem acquireLock_contended:
  assumes "locks st file = None"
    and "fs_mkdir opts (getLockFile file) st = (Some e, st1)"
    and "0 < stale opts"
    and "fs_stat opts (getLockFile file) st1 = (Inr mt, st2)"
  shows "acquireLock rt file opts st =
     (if date_now rt (world st2) - mt \<le> stale opts then (Inl (ELOCKED file), st2)
      else
        (case removeLock rt file opts st2 of
           (Some err, st3) \<Rightarrow> (Inl err, st3)
         | (None, st3) \<Rightarrow>
             (case fs_mkdir opts (getLockFile file) st3 of
                (Some err, st4) \<Rightarrow> (Inl (ELOCKED file), st4)
              | (None, st4) \<Rightarrow>
                  (case uuid_v4 rt (world st4) of
                     (u, w) \<Rightarrow>
                       (case fs_writeFile opts (getUidFile rt file) u (st4\<lparr>world := w\<rparr>) of
                          (Some err, st5) \<Rightarrow> (Inl err, snd (removeLock rt file opts st5))
                        | (None, st5) \<Rightarrow> (Inr u, st5))))))"
proof -
  have l1: "locks st1 file = None" and l2: "locks st2 file = None"
    using assms by (auto simp: fs_eqs)
  have bare: "\<And>st3. locks st3 file = None \<Longrightarrow>
      acquireLock rt file (opts\<lparr>stale := 0\<rparr>) st3 =
        (case fs_mkdir opts (getLockFile file) st3 of
                (Some err, st4) \<Rightarrow> (Inl (ELOCKED file), st4)
              | (None, st4) \<Rightarrow>
                  (case uuid_v4 rt (world st4) of
                     (u, w) \<Rightarrow>
                       (case fs_writeFile opts (getUidFile rt file) u (st4\<lparr>world := w\<rparr>) of
                          (Some err, st5) \<Rightarrow> (Inl err, snd (removeLock rt file opts st5))
                        | (None, st5) \<Rightarrow> (Inr u, st5))))"
    by (subst acquireLock_bare)
       (auto simp: fs_mkdir_def fs_writeFile_def removeLock_stale_irrelevant
             split: prod.splits option.splits)
  show ?thesis
  proof (cases "date_now rt (world st2) - mt \<le> stale opts")
    case True
    then show ?thesis
      using assms by (subst acquireLock.simps) simp
  next
    case False
    obtain r st3 where rm: "removeLock rt file opts st2 = (r, st3)" by fastforce
    have l3: "locks st3 file = None"
      using removeLock_frame(1) rm l2 by (metis snd_conv)
    show ?thesis
      using assms False rm bare [OF l3]
      by (subst acquireLock.simps) (simp split: option.splits)
  qed
qed

theorem acquireLock_contended_witness:
  "fst (acquireLock mem_rt ''/tmp/a'' mem_opts (idle world_stale)) = Inr ''tok1''
   \<and> calls (snd (acquireLock mem_rt ''/tmp/a'' mem_opts (idle world_stale))) =
        [Mkdir ''/tmp/a.lock'', Stat ''/tmp/a.lock'', Unlink ''/tmp/a.lock/.uid'',
         Rmdir ''/tmp/a.lock'', Mkdir ''/tmp/a.lock'', WriteFile ''/tmp/a.lock/.uid'' ''tok1'']"
  using acquireLock_contended [of "idle world_stale" "''/tmp/a''" mem_opts "fs_error ''EEXIST''"
     "snd (fs_mkdir mem_opts (getLockFile ''/tmp/a'') (idle world_stale))" 0
     "snd (fs_stat mem_opts (getLockFile ''/tmp/a'')
         (snd (fs_mkdir mem_opts (getLockFile ''/tmp/a'') (idle world_stale))))" mem_rt]
  by (simp add: mem_run world_stale_def)




subsection \<open>The options of lock\<close>

lemma Math_round_half: "Math_round (of_int s / 2) = (s + 1) div 2"
proof -
  have "(of_int s / 2 + 1 / 2 :: rat) = of_int (s + 1) / of_int 2"
    by (simp add: field_simps)
  then have "\<lfloor>of_int s / 2 + 1 / 2 :: rat\<rfloor> = \<lfloor>(of_int (s + 1) / of_int 2) :: rat\<rfloor>"
    by (rule arg_cong)
  also have "\<dots> = (s + 1) div 2" by (rule floor_divide_of_int_eq)
  finally show ?thesis by (simp add: Math_round_def)
qed

text \<open>
  C5, as the code has it. The upper bound of the renewal interval is
  \<open>Math.round(stale / 2)\<close>, which is above \<open>stale / 2\<close> when \<open>stale\<close> is odd: with
  \<open>stale: 2001\<close> and no \<open>update\<close> the interval is 1001 ms, more than 1000.5.
\<close>

theorem lock_options_odd_stale:
  "\<not> (of_int (update (lock_options (defaults\<lparr>u_stale := Some 2001\<rparr>)))
        \<le> (of_int (stale (lock_options (defaults\<lparr>u_stale := Some 2001\<rparr>))) / 2 :: rat))"
  by (simp add: lock_options_def defaults_def Math_round_half)

text \<open>
  C5, amended. The options \<open>lock\<close> works with are: \<open>stale\<close> = max (supplied, 2000), with
  10000 when none is supplied; \<open>update\<close> = max (min (supplied, round (stale / 2)), 1000),
  with 5000 when none is supplied. So \<open>stale\<close> is never below 2000 and \<open>update\<close> lies
  between 1000 and round (stale / 2), the half rounded upwards: at most half a
  millisecond above \<open>stale / 2\<close>.
\<close>

theorem lock_options_clamped:
  "stale (lock_options u) = max (case u_stale u of None \<Rightarrow> 10000 | Some n \<Rightarrow> n) 2000
   \<and> update (lock_options u) =
       max (min (case u_update u of None \<Rightarrow> 5000 | Some n \<Rightarrow> n)
                (Math_round (of_int (stale (lock_options u)) / 2))) 1000
   \<and> 2000 \<le> stale (lock_options u)
   \<and> 1000 \<le> update (lock_options u)
   \<and> update (lock_options u) \<le> Math_round (of_int (stale (lock_options u)) / 2)
   \<and> 2 * update (lock_options u) \<le> stale (lock_options u) + 1"
  unfolding Math_round_half by (simp add: lock_options_def Let_def Math_round_half) linarith

subsection \<open>The renewal loop\<close>

lemmas mem_states = held0_def held_lock_def held_world_def rel0_def fired0_def at_time_def
  world0_def defaults_def no_lock_def released0_def crowded0_def

lemma held0_reached: "lock mem_rt ''/tmp/a'' defaults (idle world0) = (Inr rel0, held0)"
  by (simp add: lock_def lock_options_def Math_round_half canonicalPath_def attempt.simps
        acquireLock.simps updateLock_def Let_def mem_run mem_states)

lemma fired0_reached:
  "updateLock_tick mem_rt 0 (at_time 105000 held0) = Some ((None, ''tok1''), fired0)"
  by (simp add: updateLock_tick_def Let_def mem_run mem_states)

lemma canonicalPath_frame:
  "locks (snd (canonicalPath rt file opts st)) = locks st"
  "heap (snd (canonicalPath rt file opts st)) = heap st"
  "timers (snd (canonicalPath rt file opts st)) = timers st"
  "next_ref (snd (canonicalPath rt file opts st)) = next_ref st"
  "next_timer (snd (canonicalPath rt file opts st)) = next_timer st"
  by (simp_all add: canonicalPath_def fs_eqs)

lemma canonicalPath_no_resolve:
  "\<not> resolve opts \<Longrightarrow> canonicalPath rt file opts st = (Inr (path_normalize rt file), st)"
  by (simp add: canonicalPath_def)

text \<open>unlock on a path that is in the registry, without resolving.\<close>

lemma unlock_held:
  assumes "\<not> resolve opts" and "locks st (path_normalize rt file0) = Some r"
  shows "unlock rt file0 opts st =
     removeLock rt (path_normalize rt file0) opts
       (st\<lparr>timers := (case updateTimeout (heap st r) of
                          None \<Rightarrow> timers st
                        | Some tid \<Rightarrow> (timers st)(tid := None)),
           heap := (heap st)(r := (heap st r)\<lparr>released := True\<rparr>),
           locks := (locks st)(path_normalize rt file0 := None)\<rparr>)"
  using assms
  by (simp add: unlock_def canonicalPath_no_resolve Let_def split: option.splits)

lemma unlock_not_held:
  assumes "\<not> resolve opts" and "locks st (path_normalize rt file0) = None"
  shows "unlock rt file0 opts st = (Some ENOTACQUIRED, st)"
  using assms by (simp add: unlock_def canonicalPath_no_resolve)

text \<open>unlock changes a lock object by setting its \<open>released\<close> flag, or not at all.\<close>

lemma unlock_heap:
  "heap (snd (unlock rt file0 opts st)) r = heap st r
   \<or> heap (snd (unlock rt file0 opts st)) r = (heap st r)\<lparr>released := True\<rparr>"
proof -
  obtain c st1 where cp: "canonicalPath rt file0 opts st = (c, st1)" by fastforce
  have h: "heap st1 = heap st"
    using canonicalPath_frame(2) cp by (metis snd_conv)
  show ?thesis
    using cp h
    by (auto simp: unlock_def Let_def removeLock_frame split: sum.splits option.splits)
qed

lemma unlock_updateError:
  "updateError (heap (snd (unlock rt file0 opts st)) r) = updateError (heap st r)"
  using unlock_heap [of rt file0 opts st r] by auto

lemma unlock_released_mono:
  "released (heap st r) \<Longrightarrow> released (heap (snd (unlock rt file0 opts st)) r)"
  using unlock_heap [of rt file0 opts st r] by auto

lemma updateLock_held:
  "locks st file = Some r \<Longrightarrow> \<exists>st1. updateLock file opts st = Some st1"
  by (simp add: updateLock_def Let_def)


lemmas flaky_states = flaky_fs_def flaky_user_def flaky_held_def flaky_retry_def steal_def
  flaky_stolen_def

lemmas lock_run = lock_def lock_options_def Math_round_half attempt.simps acquireLock.simps
  updateLock_run_def updateLock_tick_def

lemmas tick_run = updateLock_done_def reschedule_def updateLock_def unlock_def release_def
  canonicalPath_def Let_def trim_def is_space_def EUPDATE_def EMISMATCH_def ERELEASED_def
  ENOTACQUIRED_def



text \<open>
  C9, as the code has it. The error handed to the compromise callback is
  \<open>lock.updateError || errcode(..., 'EUPDATE')\<close>. With \<open>flaky_fs\<close> the first tick
  fails with the \<open>EIO\<close> of \<open>utimes\<close> and is rescheduled; the next tick completes
  2003 ms after the last renewal, beyond \<open>stale\<close> = 2000, and the callback gets that
  \<open>EIO\<close> error, not the update-timeout error. And on \<open>released0\<close> (released in the
  meantime) a tick that completes that late is ignored.
\<close>

theorem updateLock_done_remembered_error:
  "updateLock_run mem_rt 0 (at_time 101001 flaky_held) = Some (Rescheduled, flaky_retry)
   \<and> stale (lock_options flaky_user)
       < date_now mem_rt (world (at_time 102003 flaky_retry))
         - lastUpdate (heap (at_time 102003 flaky_retry) 0)
   \<and> map_option fst (updateLock_run mem_rt 1 (at_time 102003 flaky_retry))
       = Some (Compromised (fs_error ''EIO''))
   \<and> code (fs_error ''EIO'') \<noteq> ''EUPDATE''
   \<and> stale mem_opts
       < date_now mem_rt (world (at_time 111000 released0))
         - lastUpdate (heap (at_time 111000 released0) 0)
   \<and> updateLock_done mem_rt ''/tmp/a'' mem_opts 0 None ''tok1'' (at_time 111000 released0)
       = (Ignored, at_time 111000 released0)"
  by (simp add: lock_run tick_run mem_run mem_states flaky_states)

text \<open>
  C9, amended. For every renewal tick on a handle not yet released that completes when
  \<open>lastUpdate \<le> now - stale\<close> (in particular when the time since the last renewal
  exceeds \<open>stale\<close>): \<open>unlock\<close> runs, its result ignored, and the compromise callback gets
  the error remembered from an earlier failed renewal if there is one, the
  \<open>EUPDATE\<close> error otherwise, whatever this tick's operations reported (\<open>err\<close>,
  \<open>rd\<close>). When the registry holds the handle under the path, \<open>unlock\<close> marks it
  released and takes it out of the registry.
\<close>

theorem updateLock_done_timeout:
  assumes "\<not> released (heap st r)"
    and "lastUpdate (heap st r) \<le> date_now rt (world st) - stale opts"
  shows "updateLock_done rt file opts r err rd st =
           (Compromised (case updateError (heap st r) of Some e \<Rightarrow> e | None \<Rightarrow> EUPDATE),
            snd (unlock rt file (opts\<lparr>resolve := False\<rparr>) st))
     \<and> code EUPDATE = ''EUPDATE''
     \<and> (locks st (path_normalize rt file) = Some r \<longrightarrow>
          released (heap (snd (unlock rt file (opts\<lparr>resolve := False\<rparr>) st)) r)
          \<and> locks (snd (unlock rt file (opts\<lparr>resolve := False\<rparr>) st)) (path_normalize rt file)
              = None)"
proof -
  have a: "updateLock_done rt file opts r err rd st =
           (Compromised (case updateError (heap st r) of Some e \<Rightarrow> e | None \<Rightarrow> EUPDATE),
            snd (unlock rt file (opts\<lparr>resolve := False\<rparr>) st))"
    using assms by (simp add: updateLock_done_def case_prod_beta unlock_updateError)
  have b: "code EUPDATE = ''EUPDATE''"
    by (simp add: EUPDATE_def errcode_def)
  have c: "released (heap (snd (unlock rt file (opts\<lparr>resolve := False\<rparr>) st)) r)
          \<and> locks (snd (unlock rt file (opts\<lparr>resolve := False\<rparr>) st)) (path_normalize rt file)
              = None"
    if "locks st (path_normalize rt file) = Some r"
    using that by (simp add: unlock_held removeLock_frame)
  show ?thesis using a b c by blast
qed

theorem updateLock_done_timeout_witness:
  "fst (updateLock_done mem_rt ''/tmp/a'' mem_opts 0 None ''tok1'' (at_time 111000 fired0))
     = Compromised EUPDATE
   \<and> released (heap (snd (updateLock_done mem_rt ''/tmp/a'' mem_opts 0 None ''tok1''
        (at_time 111000 fired0))) 0)
   \<and> locks (snd (updateLock_done mem_rt ''/tmp/a'' mem_opts 0 None ''tok1''
        (at_time 111000 fired0))) ''/tmp/a'' = None"
  using updateLock_done_timeout [of "at_time 111000 fired0" 0 mem_rt mem_opts "''/tmp/a''" None "''tok1''"]
  by (simp add: mem_states mem_rt_def mem_opts_def)

text \<open>
  C2, as the code has it. The uid is compared last. With the uid file overwritten by
  another party (\<open>steal\<close>): on \<open>flaky_fs\<close> the tick reads the other token, its
  \<open>utimes\<close> fails with \<open>EIO\<close>, and the tick is rescheduled with the handle unreleased
  and registered; a tick that runs beyond the threshold reports \<open>EUPDATE\<close>; a tick
  completing on a released handle is ignored.
\<close>

theorem updateLock_done_mismatch_unseen:
  "readFile flaky_fs ''/tmp/a.lock/.uid'' (world (steal (at_time 101001 flaky_held)))
       = (Inr ''stolen'', world (steal (at_time 101001 flaky_held)))
   \<and> trim ''stolen'' \<noteq> uid (heap flaky_held 0)
   \<and> updateLock_run mem_rt 0 (steal (at_time 101001 flaky_held))
       = Some (Rescheduled, flaky_stolen)
   \<and> \<not> released (heap flaky_stolen 0)
   \<and> locks flaky_stolen ''/tmp/a'' = Some 0
   \<and> map_option fst (updateLock_run mem_rt 0 (steal (at_time 111000 held0)))
       = Some (Compromised EUPDATE)
   \<and> EUPDATE \<noteq> EMISMATCH
   \<and> fst (updateLock_done mem_rt ''/tmp/a'' mem_opts 0 None ''stolen'' released0) = Ignored"
  by (simp add: lock_run tick_run mem_run mem_states flaky_states)

text \<open>
  C2, amended. For every renewal tick on a handle not yet released, within the staleness
  threshold and whose two operations both succeeded (\<open>err\<close> is \<open>None\<close>): if the
  trimmed content of the uid file is not the handle's token, the handle is marked
  released, the entry of the path is removed from the registry, and the compromise
  callback gets the \<open>EMISMATCH\<close> error.
\<close>

theorem updateLock_done_mismatch:
  assumes "\<not> released (heap st r)"
    and "\<not> lastUpdate (heap st r) \<le> date_now rt (world st) - stale opts"
    and "trim rd \<noteq> uid (heap st r)"
  shows "updateLock_done rt file opts r None rd st =
           (Compromised EMISMATCH,
            st\<lparr>heap := (heap st)(r := (heap st r)\<lparr>released := True\<rparr>),
               locks := (locks st)(file := None)\<rparr>)
     \<and> released (heap (snd (updateLock_done rt file opts r None rd st)) r)
     \<and> locks (snd (updateLock_done rt file opts r None rd st)) file = None
     \<and> code EMISMATCH = ''EMISMATCH''"
  using assms by (simp add: updateLock_done_def EMISMATCH_def errcode_def)

theorem updateLock_done_mismatch_witness:
  "fst (updateLock_done mem_rt ''/tmp/a'' mem_opts 0 None ''stolen'' fired0) = Compromised EMISMATCH
   \<and> released (heap (snd (updateLock_done mem_rt ''/tmp/a'' mem_opts 0 None ''stolen'' fired0)) 0)
   \<and> locks (snd (updateLock_done mem_rt ''/tmp/a'' mem_opts 0 None ''stolen'' fired0)) ''/tmp/a''
       = None"
  using updateLock_done_mismatch [of fired0 0 mem_rt mem_opts "''stolen''" "''/tmp/a''"]
  by (simp add: mem_states mem_rt_def mem_opts_def trim_def is_space_def)

text \<open>
  C10. After a tick has ended in the uid-mismatch branch (compromise callback with
  \<open>EMISMATCH\<close>), the release function of that handle fails with \<open>ERELEASED\<close> and
  returns the state as it was: no primitive is called, nothing is removed. The same
  holds in every later state in which the flag of the lock object is set.
\<close>

theorem release_after_mismatch:
  assumes "\<not> released (heap st (rel_lock rel))"
    and "\<not> lastUpdate (heap st (rel_lock rel)) \<le> date_now rt (world st) - stale opts"
    and "trim rd \<noteq> uid (heap st (rel_lock rel))"
    and "updateLock_done rt (rel_file rel) opts (rel_lock rel) None rd st = (out, st1)"
  shows "out = Compromised EMISMATCH
     \<and> release rt rel st1 = (Some ERELEASED, st1)
     \<and> code ERELEASED = ''ERELEASED''
     \<and> (\<forall>st2. released (heap st2 (rel_lock rel)) \<longrightarrow> release rt rel st2 = (Some ERELEASED, st2))"
  using assms by (auto simp: updateLock_done_def release_def ERELEASED_def errcode_def)

theorem release_after_mismatch_witness:
  "release mem_rt rel0 (snd (updateLock_done mem_rt ''/tmp/a'' mem_opts 0 None ''stolen'' fired0))
     = (Some ERELEASED, snd (updateLock_done mem_rt ''/tmp/a'' mem_opts 0 None ''stolen'' fired0))"
  using release_after_mismatch [of fired0 rel0 mem_rt mem_opts "''stolen''"
      "fst (updateLock_done mem_rt ''/tmp/a'' mem_opts 0 None ''stolen'' fired0)"
      "snd (updateLock_done mem_rt ''/tmp/a'' mem_opts 0 None ''stolen'' fired0)"]
  by (simp add: mem_states mem_rt_def mem_opts_def trim_def is_space_def)

subsection \<open>Acquire and release\<close>

lemma acquireLock_bare_frame:
  assumes "stale opts \<le> 0"
  shows "locks (snd (acquireLock rt file opts st)) = locks st"
    "heap (snd (acquireLock rt file opts st)) = heap st"
    "timers (snd (acquireLock rt file opts st)) = timers st"
    "next_ref (snd (acquireLock rt file opts st)) = next_ref st"
    "next_timer (snd (acquireLock rt file opts st)) = next_timer st"
  using assms
  by (simp_all add: acquireLock_bare fs_eqs case_prod_beta removeLock_frame split: option.splits)

lemma acquireLock_frame:
  "locks (snd (acquireLock rt file opts st)) = locks st"
  "heap (snd (acquireLock rt file opts st)) = heap st"
  "timers (snd (acquireLock rt file opts st)) = timers st"
  "next_ref (snd (acquireLock rt file opts st)) = next_ref st"
  "next_timer (snd (acquireLock rt file opts st)) = next_timer st"
  by (subst acquireLock.simps,
      simp add: acquireLock_bare_frame fs_eqs case_prod_beta removeLock_frame
           split: option.splits sum.splits)+

lemma attempt_frame:
  "locks (snd (attempt rt file opts n errs st)) = locks st
   \<and> heap (snd (attempt rt file opts n errs st)) = heap st
   \<and> timers (snd (attempt rt file opts n errs st)) = timers st
   \<and> next_ref (snd (attempt rt file opts n errs st)) = next_ref st
   \<and> next_timer (snd (attempt rt file opts n errs st)) = next_timer st"
proof (induction n arbitrary: errs st)
  case 0
  show ?case
    using acquireLock_frame [of rt "file" opts st]
    by (subst (1 2 3 4 5) attempt.simps) (auto split: prod.splits sum.splits)
next
  case (Suc n)
  show ?case
    using acquireLock_frame [of rt "file" opts st] Suc.IH
    by (subst (1 2 3 4 5) attempt.simps) (auto split: prod.splits sum.splits)
qed


lemma filter_absent_key:
  "map_of d p = None \<Longrightarrow> filter (\<lambda>(q, n). q \<noteq> p) d = d"
  by (induction d) (auto split: if_splits)

lemma dirname_shorter: "p \<noteq> [] \<Longrightarrow> length (dirname p) < length p"
proof -
  assume "p \<noteq> []"
  have "length (tl (dropWhile (\<lambda>c. c \<noteq> CHR ''/'') (rev p)))
          \<le> length (dropWhile (\<lambda>c. c \<noteq> CHR ''/'') (rev p)) - 1"
    by simp
  moreover have "length (dropWhile (\<lambda>c. c \<noteq> CHR ''/'') (rev p)) \<le> length p"
    using length_dropWhile_le [of "\<lambda>c. c \<noteq> CHR ''/''" "rev p"] by simp
  ultimately show ?thesis
    using \<open>p \<noteq> []\<close> by (cases p) (auto simp: dirname_def)
qed

lemma dirname_lock: "dirname (getLockFile file) \<noteq> getLockFile file"
  using dirname_shorter [of "getLockFile file"] by (auto simp: getLockFile_def)

lemma dirname_uid: "dirname (getUidFile mem_rt file) = getLockFile file"
  by (simp add: getUidFile_def mem_rt_def dirname_def)

lemma uid_not_lock: "getUidFile mem_rt file \<noteq> getLockFile file"
  by (simp add: getUidFile_def mem_rt_def)

lemma no_children_no_uid:
  assumes "\<not> has_children w (getLockFile file)"
  shows "map_of (disk w) (getUidFile mem_rt file) = None"
proof (rule ccontr)
  assume "map_of (disk w) (getUidFile mem_rt file) \<noteq> None"
  then obtain n where "(getUidFile mem_rt file, n) \<in> set (disk w)"
    by (auto dest: map_of_SomeD)
  then have "\<exists>x\<in>set (disk w). (case x of (q, n) \<Rightarrow> dirname q = getLockFile file)"
    by (intro bexI [of _ "(getUidFile mem_rt file, n)"]) (simp_all add: dirname_uid)
  then have "has_children w (getLockFile file)"
    by (simp add: has_children_def list_ex_iff)
  with assms show False by simp
qed






lemma mem_rt_simps:
  "uuid_v4 mem_rt = mem_uuid" "date_now mem_rt = clock" "path_normalize mem_rt p = p"
  by (simp_all add: mem_rt_def)

lemma mem_fs_simps:
  "mkdir mem_fs = mem_mkdir" "writeFile mem_fs = mem_writeFile" "stat mem_fs = mem_stat"
  "unlink mem_fs = mem_unlink" "rmdir mem_fs = mem_rmdir" "readFile mem_fs = mem_readFile"
  "utimes mem_fs = mem_utimes" "realpath mem_fs = mem_realpath"
  by (simp_all add: mem_fs_def)

lemma mem_uuid_world:
  "disk (snd (mem_uuid w)) = disk w" "clock (snd (mem_uuid w)) = clock w"
  by (simp_all add: mem_uuid_def split: list.splits)

lemma lock_path_nonempty: "getLockFile file \<noteq> []"
  by (simp add: getLockFile_def)

lemma mem_acquireLock_bare_fresh:
  assumes "stale opts \<le> 0" and "fs opts = mem_fs"
    and "map_of (disk (world st)) (getLockFile file) = None"
    and "\<not> has_children (world st) (getLockFile file)"
  shows "fresh_outcome file st (acquireLock mem_rt file opts st)"
  using assms no_children_no_uid [OF assms(4)] uid_not_lock [of "file"]
    lock_path_nonempty [of "file"]
  by (simp add: acquireLock_bare fresh_outcome_def fs_eqs mem_fs_simps mem_rt_simps
        mem_mkdir_def mem_writeFile_def case_prod_beta mem_uuid_world parent_ok_def
        dirname_uid split: option.splits)

lemma mem_acquireLock_fresh:
  assumes "fs opts = mem_fs"
    and "map_of (disk (world st)) (getLockFile file) = None"
    and "\<not> has_children (world st) (getLockFile file)"
  shows "fresh_outcome file st (acquireLock mem_rt file opts st)"
proof (cases "stale opts \<le> 0")
  case True
  then show ?thesis using assms by (rule mem_acquireLock_bare_fresh)
next
  case False
  let ?st2 = "snd (fs_stat opts (getLockFile file) (snd (fs_mkdir opts (getLockFile file) st)))"
  show ?thesis
  proof (cases "parent_ok (world st) (getLockFile file)")
    case True
    then show ?thesis
      using assms no_children_no_uid [OF assms(3)] uid_not_lock [of "file"]
        lock_path_nonempty [of "file"]
      by (subst acquireLock.simps)
         (simp add: fresh_outcome_def fs_eqs mem_fs_simps mem_rt_simps
            mem_mkdir_def mem_writeFile_def case_prod_beta mem_uuid_world parent_ok_def
            dirname_uid split: option.splits)
  next
    case no_parent: False
    have w2: "world ?st2 = world st"
      using assms no_parent by (simp add: fs_eqs mem_fs_simps mem_mkdir_def mem_stat_def)
    have bare: "fresh_outcome file ?st2 (acquireLock mem_rt file (opts\<lparr>stale := 0\<rparr>) ?st2)"
      using assms by (intro mem_acquireLock_bare_fresh) (simp_all add: w2 has_children_def)
    have "acquireLock mem_rt file opts st =
        (if locks st file \<noteq> None then (Inl (ELOCKED file), st)
         else acquireLock mem_rt file (opts\<lparr>stale := 0\<rparr>) ?st2)"
      using assms no_parent False
      by (subst acquireLock.simps)
         (simp add: fs_eqs mem_fs_simps mem_mkdir_def mem_stat_def fs_error_def)
    then show ?thesis
      using bare by (auto simp: fresh_outcome_def w2 split: sum.splits)
  qed
qed

lemma mem_attempt_fresh:
  assumes "fs opts = mem_fs"
    and "map_of (disk (world st)) (getLockFile file) = None"
    and "\<not> has_children (world st) (getLockFile file)"
  shows "fresh_outcome file st (attempt mem_rt file opts n errs st)"
  using assms
proof (induction n arbitrary: errs st)
  case 0
  then show ?case
    using mem_acquireLock_fresh [of opts st "file"]
    by (subst attempt.simps) (auto simp: fresh_outcome_def split: prod.splits sum.splits)
next
  case (Suc n)
  obtain r st1 where a: "acquireLock mem_rt file opts st = (r, st1)" by fastforce
  have f: "fresh_outcome file st (r, st1)"
    using mem_acquireLock_fresh [of opts st "file"] Suc.prems a by simp
  show ?case
  proof (cases r)
    case (Inr u)
    then show ?thesis using a f by (subst attempt.simps) (simp add: fresh_outcome_def)
  next
    case (Inl e)
    then have d: "disk (world st1) = disk (world st)" "clock (world st1) = clock (world st)"
      using f by (simp_all add: fresh_outcome_def)
    have "fresh_outcome file st1 (attempt mem_rt file opts n (errs @ [e]) st1)"
      using Suc.prems d by (intro Suc.IH) (simp_all add: has_children_def)
    then show ?thesis
      using a Inl d by (subst attempt.simps) (auto simp: fresh_outcome_def split: sum.splits)
  qed
qed

lemma mem_removeLock_fresh:
  assumes "fs opts = mem_fs"
    and "disk (world st) =
           (getUidFile mem_rt file, File c u) # (getLockFile file, Dir c') # disk w"
    and "map_of (disk w) (getLockFile file) = None"
    and "\<not> has_children w (getLockFile file)"
  shows "fst (removeLock mem_rt file opts st) = None
     \<and> disk (world (snd (removeLock mem_rt file opts st))) = disk w"
  using assms no_children_no_uid [OF assms(4)] uid_not_lock [of "file"] dirname_lock [of "file"]
  by (simp add: removeLock_def fs_eqs case_prod_beta mem_fs_simps mem_unlink_def mem_rmdir_def
        remove_entry_def not_ENOENT_def has_children_def filter_absent_key)

lemma mem_canonicalPath:
  assumes "fs opts = mem_fs" and "canonicalPath mem_rt file opts st = (Inr f, st1)"
  shows "f = file \<and> world st1 = world st"
  using assms
  by (auto simp: canonicalPath_def mem_rt_simps fs_eqs mem_fs_simps mem_realpath_def
        split: if_splits option.splits)

text \<open>
  C8. On the reference filesystem, for every path with no lock artifact (neither the lock
  directory nor anything under it exists): when \<open>lock\<close> succeeds, it has added exactly
  the lock directory and the uid file holding the handle's token, and the release
  function, called in the state \<open>lock\<close> left, succeeds and leaves the disk as it was
  before \<open>lock\<close>: the same entries, with the contents and times they had.
\<close>

theorem lock_release_roundtrip:
  assumes "u_fs u = mem_fs"
    and "map_of (disk (world st)) (getLockFile file) = None"
    and "\<not> has_children (world st) (getLockFile file)"
    and "lock mem_rt file u st = (Inr rel, st1)"
  shows "disk (world st1) =
           (getUidFile mem_rt file, File (clock (world st)) (uid (heap st1 (rel_lock rel)))) #
           (getLockFile file, Dir (clock (world st))) # disk (world st)
     \<and> fst (release mem_rt rel st1) = None
     \<and> disk (world (snd (release mem_rt rel st1))) = disk (world st)"
proof -
  let ?opts = "lock_options u"
  have fs: "fs ?opts = mem_fs"
    using assms(1) by (simp add: lock_options_def Let_def)
  obtain c sta where cp: "canonicalPath mem_rt file ?opts st = (c, sta)" by fastforce
  obtain f where c: "c = Inr f"
    using assms(4) cp by (cases c) (auto simp: lock_def Let_def)
  have f: "f = file" and wa: "world sta = world st"
    using mem_canonicalPath [OF fs] cp c by auto
  obtain a stb where at: "attempt mem_rt file ?opts (retries ?opts) [] sta = (a, stb)"
    by fastforce
  obtain u1 where a: "a = Inr u1"
    using assms(4) cp c f at by (cases a) (auto simp: lock_def Let_def)
  have "fresh_outcome file sta (a, stb)"
    using mem_attempt_fresh [of ?opts sta "file" "retries ?opts" "[]"] fs assms(2,3) wa at
    by (simp add: has_children_def)
  then have db: "disk (world stb) =
      (getUidFile mem_rt file, File (clock (world st)) u1) #
      (getLockFile file, Dir (clock (world st))) # disk (world st)"
    using a wa by (simp add: fresh_outcome_def)
  let ?r = "next_ref stb"
  have rel: "rel = \<lparr>rel_file = file, rel_options = ?opts, rel_lock = ?r\<rparr>"
    and w1: "world st1 = world stb"
    and h1: "uid (heap st1 ?r) = u1" "\<not> released (heap st1 ?r)"
    and l1: "locks st1 file = Some ?r"
    using assms(4) cp c f at a
    by (auto simp: lock_def Let_def updateLock_def)
  have un: "release mem_rt rel st1 =
      removeLock mem_rt file (?opts\<lparr>resolve := False\<rparr>)
        (st1\<lparr>timers := (case updateTimeout (heap st1 ?r) of
                           None \<Rightarrow> timers st1
                         | Some tid \<Rightarrow> (timers st1)(tid := None)),
             heap := (heap st1)(?r := (heap st1 ?r)\<lparr>released := True\<rparr>),
             locks := (locks st1)(file := None)\<rparr>)"
    using h1 l1 unlock_held [of "?opts\<lparr>resolve := False\<rparr>" st1 mem_rt "file" ?r]
    by (simp add: release_def rel mem_rt_simps)
  have rm: "fst (release mem_rt rel st1) = None
     \<and> disk (world (snd (release mem_rt rel st1))) = disk (world st)"
    unfolding un
    using fs db w1 assms(2,3)
    by (intro mem_removeLock_fresh [where c = "clock (world st)" and u = u1
          and c' = "clock (world st)"]) simp_all
  show ?thesis
    using rm db w1 h1 by (simp add: rel)
qed

theorem lock_release_roundtrip_witness:
  "disk (world held0) =
     (''/tmp/a.lock/.uid'', File 100000 ''tok1'') # (''/tmp/a.lock'', Dir 100000) # disk world0
   \<and> fst (release mem_rt rel0 held0) = None
   \<and> disk (world (snd (release mem_rt rel0 held0))) = disk world0"
  using lock_release_roundtrip [of defaults "idle world0" "''/tmp/a''" rel0 held0] held0_reached
  by (simp add: mem_run mem_states)




subsection \<open>The released flag\<close>

text \<open>
  No operation of the module clears the \<open>released\<close> flag of a lock object:
  \<open>acquireLock\<close> and \<open>removeLock\<close> leave the objects alone, and so for the others.
\<close>

lemma updateLock_released:
  "updateLock file opts st = Some st1 \<Longrightarrow> released (heap st1 r) = released (heap st r)"
  by (auto simp: updateLock_def Let_def split: option.splits if_splits)

lemma reschedule_released:
  "released (heap (snd (reschedule file opts st)) r) = released (heap st r)"
  by (auto simp: reschedule_def updateLock_released split: option.splits)

lemma updateLock_tick_released:
  "updateLock_tick rt tid st = Some (res, st1) \<Longrightarrow> released (heap st1 r) = released (heap st r)"
  by (auto simp: updateLock_tick_def Let_def fs_eqs case_prod_beta split: option.splits if_splits)

lemma updateLock_done_released_mono:
  "released (heap st r') \<Longrightarrow> released (heap (snd (updateLock_done rt file opts r err rd st)) r')"
  by (auto simp: updateLock_done_def case_prod_beta unlock_released_mono reschedule_released
        split: option.splits if_splits)

lemma release_released_mono:
  "released (heap st r) \<Longrightarrow> released (heap (snd (release rt rel st)) r)"
  by (simp add: release_def unlock_released_mono)

lemma lock_released_mono:
  assumes "r < next_ref st" and "released (heap st r)"
  shows "released (heap (snd (lock rt file u st)) r)"
proof -
  let ?opts = "lock_options u"
  obtain c sta where cp: "canonicalPath rt file ?opts st = (c, sta)" by fastforce
  have a: "heap sta = heap st" "next_ref sta = next_ref st"
    using canonicalPath_frame(2,4) [of rt "file" ?opts st] cp by simp_all
  show ?thesis
  proof (cases c)
    case (Inl e)
    then show ?thesis using cp a assms by (simp add: lock_def Let_def)
  next
    case (Inr f)
    obtain x stb where at: "attempt rt f ?opts (retries ?opts) [] sta = (x, stb)" by fastforce
    have b: "heap stb = heap sta" "next_ref stb = next_ref sta"
      using attempt_frame [of rt f ?opts "retries ?opts" "[]" sta] at by simp_all
    show ?thesis
      using cp Inr at a b assms
      by (cases x) (auto simp: lock_def Let_def updateLock_def split: option.splits if_splits)
  qed
qed

subsection \<open>The handle lock returns\<close>

text \<open>
  What \<open>lock\<close> establishes for the handle it returns: the lock object is not released, it
  is registered under the path of the release function, and its pending timer is the one
  it records.
\<close>

lemma lock_gives_held:
  assumes "lock rt file0 u st = (Inr rel, st1)"
  shows "\<not> released (heap st1 (rel_lock rel))
     \<and> locks st1 (rel_file rel) = Some (rel_lock rel)
     \<and> rel_lock rel = next_ref st
     \<and> rel_options rel = lock_options u
     \<and> updateTimeout (heap st1 (rel_lock rel)) = Some (next_timer st)
     \<and> timers st1 (next_timer st) =
          Some \<lparr>t_file = rel_file rel, t_options = lock_options u, t_lock = rel_lock rel,
                t_delay = update (lock_options u)\<rparr>"
proof -
  let ?opts = "lock_options u"
  obtain c sta where cp: "canonicalPath rt file0 ?opts st = (c, sta)" by fastforce
  have a: "next_ref sta = next_ref st" "next_timer sta = next_timer st"
    using canonicalPath_frame(4,5) [of rt file0 ?opts st] cp by simp_all
  obtain f where c: "c = Inr f"
    using assms cp by (cases c) (auto simp: lock_def Let_def)
  obtain x stb where at: "attempt rt f ?opts (retries ?opts) [] sta = (x, stb)" by fastforce
  have b: "next_ref stb = next_ref sta" "next_timer stb = next_timer sta"
    using attempt_frame [of rt f ?opts "retries ?opts" "[]" sta] at by simp_all
  obtain u1 where x: "x = Inr u1"
    using assms cp c at by (cases x) (auto simp: lock_def Let_def)
  show ?thesis
    using assms cp c at x a b
    by (auto simp: lock_def Let_def updateLock_def)
qed

subsection \<open>The invariant of the process\<close>

lemma sys_inv_cong:
  assumes "sys_inv rt st F H"
    and "locks st' = locks st" "heap st' = heap st" "timers st' = timers st"
    and "next_ref st' = next_ref st" "next_timer st' = next_timer st"
  shows "sys_inv rt st' F H"
proof -
  have "sys_inv rt st' F H = sys_inv rt st F H"
    by (simp add: sys_inv_def reg_ok_def reg_inj_def tim_ok_def fly_ok_def han_ok_def assms(2-))
  then show ?thesis using assms(1) by simp
qed

lemma sys_inv_removeLock:
  "sys_inv rt st F H \<Longrightarrow> sys_inv rt (snd (removeLock rt' file opts st)) F H"
  by (erule sys_inv_cong) (simp_all add: removeLock_frame)

lemma sys_inv_canonicalPath:
  "sys_inv rt st F H \<Longrightarrow> sys_inv rt (snd (canonicalPath rt' file opts st)) F H"
  by (erule sys_inv_cong) (simp_all add: canonicalPath_frame)

lemma unregister_fields:
  "locks (unregister file r st) f = (if f = file then None else locks st f)"
  "heap (unregister file r st) r' = (if r' = r then (heap st r)\<lparr>released := True\<rparr> else heap st r')"
  "next_ref (unregister file r st) = next_ref st"
  "next_timer (unregister file r st) = next_timer st"
  by (simp_all add: unregister_def)

lemma unregister_timers:
  "timers (unregister file r st) tid = Some t \<Longrightarrow> timers st tid = Some t"
  by (auto simp: unregister_def split: option.splits if_splits)

lemma unregister_no_timer:
  assumes "tim_ok st" and "timers (unregister file r st) tid = Some t"
  shows "t_lock t \<noteq> r"
proof
  assume eq: "t_lock t = r"
  have old: "timers st tid = Some t" using assms(2) by (rule unregister_timers)
  then have "updateTimeout (heap st r) = Some tid"
    using assms(1) eq by (auto simp: tim_ok_def)
  then have "timers (unregister file r st) tid = None"
    by (simp add: unregister_def)
  with assms(2) show False by simp
qed

text \<open>
  A registered lock is marked released and taken out of the registry, and no timer is left
  for it.
\<close>

lemma sys_inv_remove:
  assumes inv: "sys_inv rt st F H" and reg: "locks st file = Some r"
    and lk: "locks st' = (locks st)(file := None)"
    and hp: "heap st' = (heap st)(r := (heap st r)\<lparr>released := True\<rparr>)"
    and nr: "next_ref st' = next_ref st" and nx: "next_timer st' = next_timer st"
    and tm: "\<And>tid t. timers st' tid = Some t \<Longrightarrow> timers st tid = Some t \<and> t_lock t \<noteq> r"
  shows "sys_inv rt st' F H"
proof -
  have ro: "reg_ok rt st" and ri: "reg_inj st" and ti: "tim_ok st"
    and fo: "fly_ok st F" and f1: "fly_one F" and ho: "han_ok st H"
    using inv by (simp_all add: sys_inv_def)
  have other: "\<And>f r'. locks st f = Some r' \<Longrightarrow> f \<noteq> file \<Longrightarrow> r' \<noteq> r"
    using ri reg unfolding reg_inj_def by blast
  have 1: "reg_ok rt st'"
    unfolding reg_ok_def
  proof (intro allI impI)
    fix f r'
    assume a: "locks st' f = Some r'"
    have nf: "f \<noteq> file" and l: "locks st f = Some r'"
      using a by (simp_all add: lk split: if_splits)
    have ne: "r' \<noteq> r" using l nf by (rule other)
    have "\<not> released (heap st r') \<and> r' < next_ref st \<and> path_normalize rt f = f"
      using ro l unfolding reg_ok_def by blast
    then show "\<not> released (heap st' r') \<and> r' < next_ref st' \<and> path_normalize rt f = f"
      using ne by (simp add: hp nr)
  qed
  have 2: "reg_inj st'"
    unfolding reg_inj_def
  proof (intro allI impI)
    fix f f' r'
    assume a: "locks st' f = Some r'" and b: "locks st' f' = Some r'"
    have "locks st f = Some r'" "locks st f' = Some r'"
      using a b by (simp_all add: lk split: if_splits)
    then show "f = f'"
      using ri unfolding reg_inj_def by blast
  qed
  have 3: "tim_ok st'"
    unfolding tim_ok_def
  proof (intro allI impI)
    fix tid t
    assume a: "timers st' tid = Some t"
    have old: "timers st tid = Some t" and ne: "t_lock t \<noteq> r"
      using tm [OF a] by simp_all
    have l: "locks st (t_file t) = Some (t_lock t)"
      and u: "updateTimeout (heap st (t_lock t)) = Some tid"
      and n: "tid < next_timer st"
      using ti old unfolding tim_ok_def by blast+
    have nf: "t_file t \<noteq> file" using l reg ne by auto
    show "tid < next_timer st' \<and> locks st' (t_file t) = Some (t_lock t) \<and>
        updateTimeout (heap st' (t_lock t)) = Some tid"
      using l u n nf ne by (simp add: lk hp nx)
  qed
  have 4: "fly_ok st' F"
    unfolding fly_ok_def
  proof (intro allI impI)
    fix f ops r'
    assume a: "(f, ops, r') \<in> F"
    have b: "r' < next_ref st" and c: "\<not> released (heap st r') \<longrightarrow>
           locks st f = Some r' \<and> (\<forall>tid t. timers st tid = Some t \<longrightarrow> t_lock t \<noteq> r')"
      using fo a unfolding fly_ok_def by blast+
    show "r' < next_ref st' \<and>
        (\<not> released (heap st' r') \<longrightarrow>
           locks st' f = Some r' \<and> (\<forall>tid t. timers st' tid = Some t \<longrightarrow> t_lock t \<noteq> r'))"
    proof (cases "r' = r")
      case True
      then show ?thesis using b by (simp add: hp nr)
    next
      case False
      have "\<not> released (heap st r') \<Longrightarrow> f \<noteq> file"
        using c reg False by auto
      then show ?thesis
        using b c False tm by (auto simp: hp nr lk)
    qed
  qed
  have 6: "han_ok st' H"
    unfolding han_ok_def
  proof (intro ballI)
    fix rel
    assume a: "rel \<in> H"
    have b: "rel_lock rel < next_ref st" and c: "\<not> released (heap st (rel_lock rel)) \<longrightarrow>
           locks st (rel_file rel) = Some (rel_lock rel)"
      using ho a unfolding han_ok_def by blast+
    show "rel_lock rel < next_ref st' \<and>
        (\<not> released (heap st' (rel_lock rel)) \<longrightarrow>
           locks st' (rel_file rel) = Some (rel_lock rel))"
    proof (cases "rel_lock rel = r")
      case True
      then show ?thesis using b by (simp add: hp nr)
    next
      case False
      have "\<not> released (heap st (rel_lock rel)) \<Longrightarrow> rel_file rel \<noteq> file"
        using c reg False by auto
      then show ?thesis
        using b c False by (auto simp: hp nr lk)
    qed
  qed
  show ?thesis
    using 1 2 3 4 f1 6 by (simp add: sys_inv_def)
qed

lemma sys_inv_unregister:
  assumes inv: "sys_inv rt st F H" and reg: "locks st file = Some r"
  shows "sys_inv rt (unregister file r st) F H"
proof (rule sys_inv_remove [OF inv reg])
  show "locks (unregister file r st) = (locks st)(file := None)"
    "heap (unregister file r st) = (heap st)(r := (heap st r)\<lparr>released := True\<rparr>)"
    "next_ref (unregister file r st) = next_ref st"
    "next_timer (unregister file r st) = next_timer st"
    by (simp_all add: unregister_def)
  have ti: "tim_ok st" using inv by (simp add: sys_inv_def)
  show "\<And>tid t. timers (unregister file r st) tid = Some t \<Longrightarrow>
      timers st tid = Some t \<and> t_lock t \<noteq> r"
    using unregister_timers unregister_no_timer [OF ti] by blast
qed

text \<open>The uid-mismatch branch of a tick in flight.\<close>

lemma sys_inv_drop:
  assumes inv: "sys_inv rt st F H" and reg: "locks st file = Some r"
    and nt: "\<forall>tid t. timers st tid = Some t \<longrightarrow> t_lock t \<noteq> r"
  shows "sys_inv rt
     (st\<lparr>heap := (heap st)(r := (heap st r)\<lparr>released := True\<rparr>),
         locks := (locks st)(file := None)\<rparr>) F H"
  by (rule sys_inv_remove [OF inv reg]) (simp_all add: nt)

lemma unlock_unregister:
  "unlock rt file0 opts st =
     (case canonicalPath rt file0 opts st of
        (Inl err, st1) \<Rightarrow> (Some err, st1)
      | (Inr file, st1) \<Rightarrow>
          (case locks st1 file of
             None \<Rightarrow> (Some ENOTACQUIRED, st1)
           | Some r \<Rightarrow> removeLock rt file opts (unregister file r st1)))"
proof -
  obtain c st1 where cp: "canonicalPath rt file0 opts st = (c, st1)" by fastforce
  show ?thesis
  proof (cases c)
    case (Inl e)
    then show ?thesis using cp by (simp add: unlock_def)
  next
    case (Inr f)
    show ?thesis
    proof (cases "locks st1 f")
      case None
      then show ?thesis using cp Inr by (simp add: unlock_def)
    next
      case (Some r)
      show ?thesis
      proof (cases "updateTimeout (heap st1 r)")
        case None
        then show ?thesis using cp Inr Some by (simp add: unlock_def unregister_def Let_def)
      next
        case (Some tid)
        then show ?thesis
          using cp Inr \<open>locks st1 f = Some r\<close>
          by (simp add: unlock_def unregister_def Let_def)
      qed
    qed
  qed
qed

lemma sys_inv_unlock:
  assumes "sys_inv rt st F H"
  shows "sys_inv rt (snd (unlock rt' file0 opts st)) F H"
proof -
  obtain c st1 where cp: "canonicalPath rt' file0 opts st = (c, st1)" by fastforce
  have i1: "sys_inv rt st1 F H"
    using sys_inv_canonicalPath [OF assms, of rt' file0 opts] cp by simp
  show ?thesis
  proof (cases c)
    case (Inl e)
    then show ?thesis using cp i1 by (simp add: unlock_unregister)
  next
    case (Inr f)
    show ?thesis
    proof (cases "locks st1 f")
      case None
      then show ?thesis using cp Inr i1 by (simp add: unlock_unregister)
    next
      case (Some r)
      have "sys_inv rt (unregister f r st1) F H"
        using i1 Some by (rule sys_inv_unregister)
      then have "sys_inv rt (snd (removeLock rt' f opts (unregister f r st1))) F H"
        by (rule sys_inv_removeLock)
      then show ?thesis using cp Inr Some by (simp add: unlock_unregister)
    qed
  qed
qed

lemma sys_inv_release:
  "sys_inv rt st F H \<Longrightarrow> sys_inv rt (snd (release rt' rel st)) F H"
proof (cases "released (heap st (rel_lock rel))")
  case True
  assume "sys_inv rt st F H"
  then show ?thesis using True by (simp add: release_def)
next
  case False
  assume "sys_inv rt st F H"
  then have "sys_inv rt (snd (unlock rt' (rel_file rel) ((rel_options rel)\<lparr>resolve := False\<rparr>) st)) F H"
    by (rule sys_inv_unlock)
  then show ?thesis using False by (simp add: release_def)
qed

lemma sys_inv_subset:
  assumes "sys_inv rt st F H" and "G \<subseteq> F"
  shows "sys_inv rt st G H"
proof -
  have "fly_ok st G" using assms unfolding sys_inv_def fly_ok_def by blast
  moreover have "fly_one G" using assms unfolding sys_inv_def fly_one_def by blast
  ultimately show ?thesis using assms(1) by (simp add: sys_inv_def)
qed

text \<open>Scheduling the timer of a registered lock that has no timer and no tick in flight.\<close>

lemma sys_inv_schedule:
  assumes inv: "sys_inv rt st F H" and reg: "locks st file = Some r"
    and nt: "\<forall>tid t. timers st tid = Some t \<longrightarrow> t_lock t \<noteq> r"
    and nf: "\<forall>f ops. (f, ops, r) \<notin> F"
    and up: "updateLock file opts st = Some st'"
  shows "sys_inv rt st' F H"
proof -
  have ro: "reg_ok rt st" and ri: "reg_inj st" and ti: "tim_ok st"
    and fo: "fly_ok st F" and f1: "fly_one F" and ho: "han_ok st H"
    using inv by (simp_all add: sys_inv_def)
  obtain d where st': "st' =
      st\<lparr>heap := (heap st)(r := (heap st r)\<lparr>updateDelay := Some d,
                                            updateTimeout := Some (next_timer st)\<rparr>),
         timers := (timers st)(next_timer st \<mapsto>
            \<lparr>t_file = file, t_options = opts, t_lock = r, t_delay = d\<rparr>),
         next_timer := next_timer st + 1\<rparr>"
    using up reg by (auto simp: updateLock_def Let_def)
  have rel: "\<And>r'. released (heap st' r') = released (heap st r')"
    by (simp add: st')
  have lk: "locks st' = locks st" and nr: "next_ref st' = next_ref st"
    by (simp_all add: st')
  have tm: "\<And>tid t. timers st' tid = Some t \<Longrightarrow>
      (tid = next_timer st \<and> t_file t = file \<and> t_lock t = r) \<or>
      (tid \<noteq> next_timer st \<and> timers st tid = Some t)"
    by (auto simp: st' split: if_splits)
  have fresh: "\<And>tid t. timers st tid = Some t \<Longrightarrow> tid < next_timer st"
    using ti unfolding tim_ok_def by blast
  have 1: "reg_ok rt st'"
    using ro unfolding reg_ok_def by (simp add: rel lk nr)
  have 2: "reg_inj st'"
    using ri unfolding reg_inj_def by (simp add: lk)
  have 3: "tim_ok st'"
    unfolding tim_ok_def
  proof (intro allI impI)
    fix tid t
    assume a: "timers st' tid = Some t"
    show "tid < next_timer st' \<and> locks st' (t_file t) = Some (t_lock t) \<and>
        updateTimeout (heap st' (t_lock t)) = Some tid"
    proof (cases "tid = next_timer st")
      case True
      then have "t_file t = file" "t_lock t = r" using tm [OF a] by auto
      then show ?thesis using True reg by (simp add: st')
    next
      case False
      then have old: "timers st tid = Some t" using tm [OF a] by auto
      have "t_lock t \<noteq> r" using nt old by blast
      moreover have "tid < next_timer st" "locks st (t_file t) = Some (t_lock t)"
        "updateTimeout (heap st (t_lock t)) = Some tid"
        using ti old unfolding tim_ok_def by blast+
      ultimately show ?thesis by (simp add: st')
    qed
  qed
  have 4: "fly_ok st' F"
    unfolding fly_ok_def
  proof (intro allI impI)
    fix f ops r'
    assume a: "(f, ops, r') \<in> F"
    have ne: "r' \<noteq> r" using nf a by blast
    have b: "r' < next_ref st" and c: "\<not> released (heap st r') \<longrightarrow>
           locks st f = Some r' \<and> (\<forall>tid t. timers st tid = Some t \<longrightarrow> t_lock t \<noteq> r')"
      using fo a unfolding fly_ok_def by blast+
    show "r' < next_ref st' \<and>
        (\<not> released (heap st' r') \<longrightarrow>
           locks st' f = Some r' \<and> (\<forall>tid t. timers st' tid = Some t \<longrightarrow> t_lock t \<noteq> r'))"
      using b c ne tm by (auto simp: rel lk nr)
  qed
  have 6: "han_ok st' H"
    using ho unfolding han_ok_def by (simp add: rel lk nr)
  show ?thesis
    using 1 2 3 4 f1 6 by (simp add: sys_inv_def)
qed

text \<open>Registering a new lock object under a path that is not registered.\<close>

lemma sys_inv_register:
  assumes inv: "sys_inv rt st F H" and free: "locks st file = None"
    and norm: "path_normalize rt file = file" and live: "\<not> released lk"
    and st': "st' = st\<lparr>locks := (locks st)(file \<mapsto> next_ref st),
                         heap := (heap st)(next_ref st := lk),
                         next_ref := next_ref st + 1\<rparr>"
    and rel: "rel_file rel = file" "rel_lock rel = next_ref st"
  shows "sys_inv rt st' F (insert rel H)"
    and "\<forall>tid t. timers st' tid = Some t \<longrightarrow> t_lock t \<noteq> next_ref st"
    and "\<forall>f ops. (f, ops, next_ref st) \<notin> F"
proof -
  have ro: "reg_ok rt st" and ri: "reg_inj st" and ti: "tim_ok st"
    and fo: "fly_ok st F" and f1: "fly_one F" and ho: "han_ok st H"
    using inv by (simp_all add: sys_inv_def)
  have old: "\<And>f r. locks st f = Some r \<Longrightarrow>
      f \<noteq> file \<and> r < next_ref st \<and> \<not> released (heap st r) \<and> path_normalize rt f = f"
    using ro free unfolding reg_ok_def by auto
  have 1: "reg_ok rt st'"
    unfolding reg_ok_def
  proof (intro allI impI)
    fix f r
    assume a: "locks st' f = Some r"
    show "\<not> released (heap st' r) \<and> r < next_ref st' \<and> path_normalize rt f = f"
    proof (cases "f = file")
      case True
      then show ?thesis using a norm live by (simp add: st')
    next
      case False
      then have "locks st f = Some r" using a by (simp add: st')
      then show ?thesis using old [of f r] by (simp add: st')
    qed
  qed
  have 2: "reg_inj st'"
    unfolding reg_inj_def
  proof (intro allI impI)
    fix f f' r
    assume a: "locks st' f = Some r" and b: "locks st' f' = Some r"
    show "f = f'"
    proof (cases "f = file")
      case True
      then have r: "r = next_ref st" using a by (simp add: st')
      show ?thesis
      proof (cases "f' = file")
        case True
        then show ?thesis using \<open>f = file\<close> by simp
      next
        case False
        then have "locks st f' = Some r" using b by (simp add: st')
        then show ?thesis using old [of f' r] r by simp
      qed
    next
      case False
      then have l: "locks st f = Some r" using a by (simp add: st')
      show ?thesis
      proof (cases "f' = file")
        case True
        then have "r = next_ref st" using b by (simp add: st')
        then show ?thesis using old [OF l] by simp
      next
        case False
        then have "locks st f' = Some r" using b by (simp add: st')
        then show ?thesis using ri l unfolding reg_inj_def by blast
      qed
    qed
  qed
  have tl: "\<And>tid t. timers st tid = Some t \<Longrightarrow>
      tid < next_timer st \<and> locks st (t_file t) = Some (t_lock t) \<and>
      updateTimeout (heap st (t_lock t)) = Some tid"
    using ti unfolding tim_ok_def by blast
  have 3: "tim_ok st'"
    unfolding tim_ok_def
  proof (intro allI impI)
    fix tid t
    assume "timers st' tid = Some t"
    then have a: "timers st tid = Some t" by (simp add: st')
    show "tid < next_timer st' \<and> locks st' (t_file t) = Some (t_lock t) \<and>
        updateTimeout (heap st' (t_lock t)) = Some tid"
      using tl [OF a] old [of "t_file t" "t_lock t"] by (simp add: st')
  qed
  have 4: "fly_ok st' F"
    unfolding fly_ok_def
  proof (intro allI impI)
    fix f ops r
    assume a: "(f, ops, r) \<in> F"
    have b: "r < next_ref st" and c: "\<not> released (heap st r) \<longrightarrow>
           locks st f = Some r \<and> (\<forall>tid t. timers st tid = Some t \<longrightarrow> t_lock t \<noteq> r)"
      using fo a unfolding fly_ok_def by blast+
    show "r < next_ref st' \<and>
        (\<not> released (heap st' r) \<longrightarrow>
           locks st' f = Some r \<and> (\<forall>tid t. timers st' tid = Some t \<longrightarrow> t_lock t \<noteq> r))"
      using b c old [of f r] by (auto simp: st')
  qed
  have 6: "han_ok st' (insert rel H)"
    unfolding han_ok_def
  proof (intro ballI)
    fix x
    assume a: "x \<in> insert rel H"
    show "rel_lock x < next_ref st' \<and>
        (\<not> released (heap st' (rel_lock x)) \<longrightarrow> locks st' (rel_file x) = Some (rel_lock x))"
    proof (cases "x = rel")
      case True
      then show ?thesis using rel by (simp add: st')
    next
      case False
      then have "x \<in> H" using a by simp
      then have b: "rel_lock x < next_ref st" and c: "\<not> released (heap st (rel_lock x)) \<longrightarrow>
           locks st (rel_file x) = Some (rel_lock x)"
        using ho unfolding han_ok_def by blast+
      show ?thesis
        using b c old [of "rel_file x" "rel_lock x"] by (auto simp: st')
    qed
  qed
  show "sys_inv rt st' F (insert rel H)"
    using 1 2 3 4 f1 6 by (simp add: sys_inv_def)
  show "\<forall>tid t. timers st' tid = Some t \<longrightarrow> t_lock t \<noteq> next_ref st"
  proof (intro allI impI)
    fix tid t
    assume "timers st' tid = Some t"
    then have a: "timers st tid = Some t" by (simp add: st')
    show "t_lock t \<noteq> next_ref st"
      using tl [OF a] old [of "t_file t" "t_lock t"] by simp
  qed
  show "\<forall>f ops. (f, ops, next_ref st) \<notin> F"
    using fo unfolding fly_ok_def by (metis less_irrefl)
qed

lemma attempt_needs_free:
  assumes "attempt rt file opts n errs st = (Inr u, st1)"
  shows "locks st file = None"
proof (rule ccontr)
  assume "locks st file \<noteq> None"
  then have "attempt rt file opts n errs st =
      (Inl (mainError (errs @ replicate (Suc n) (ELOCKED file))), st)"
    by (rule attempt_registered)
  with assms show False by simp
qed

lemma sys_inv_lock:
  assumes inv: "sys_inv rt st F H"
    and norm: "\<forall>f st1. canonicalPath rt file0 (lock_options u) st = (Inr f, st1) \<longrightarrow>
                 path_normalize rt f = f"
    and lk: "lock rt file0 u st = (res, st')"
  shows "sys_inv rt st' F (case res of Inl e \<Rightarrow> H | Inr rel \<Rightarrow> insert rel H)"
proof -
  let ?opts = "lock_options u"
  obtain c sta where cp: "canonicalPath rt file0 ?opts st = (c, sta)" by fastforce
  have ia: "sys_inv rt sta F H"
    using sys_inv_canonicalPath [OF inv, of rt file0 ?opts] cp by simp
  show ?thesis
  proof (cases c)
    case (Inl e)
    then show ?thesis using lk cp ia by (auto simp: lock_def Let_def)
  next
    case (Inr f)
    have nf: "path_normalize rt f = f" using norm cp Inr by simp
    obtain x stb where at: "attempt rt f ?opts (retries ?opts) [] sta = (x, stb)" by fastforce
    have fr: "locks stb = locks sta" "heap stb = heap sta" "timers stb = timers sta"
      "next_ref stb = next_ref sta" "next_timer stb = next_timer sta"
      using attempt_frame [of rt f ?opts "retries ?opts" "[]" sta] at by simp_all
    have ib: "sys_inv rt stb F H"
      using ia fr by (rule sys_inv_cong)
    show ?thesis
    proof (cases x)
      case (Inl e)
      then show ?thesis using lk cp Inr at ib by (auto simp: lock_def Let_def)
    next
      case (Inr u1)
      have free: "locks stb f = None"
        using attempt_needs_free at Inr fr(1) by metis
      let ?r = "next_ref stb"
      let ?lk = "\<lparr>uid = u1, options = ?opts, lastUpdate = date_now rt (world stb),
                   released = False, updateError = None, updateDelay = None,
                   updateTimeout = None\<rparr>"
      let ?stc = "stb\<lparr>locks := (locks stb)(f \<mapsto> ?r), heap := (heap stb)(?r := ?lk),
                       next_ref := ?r + 1\<rparr>"
      let ?rel = "\<lparr>rel_file = f, rel_options = ?opts, rel_lock = ?r\<rparr>"
      have reg: "sys_inv rt ?stc F (insert ?rel H)"
        "\<forall>tid t. timers ?stc tid = Some t \<longrightarrow> t_lock t \<noteq> ?r"
        "\<forall>g ops. (g, ops, ?r) \<notin> F"
        using sys_inv_register [OF ib free nf, of ?lk ?stc ?rel] by simp_all
      obtain std where up: "updateLock f ?opts ?stc = Some std"
        using updateLock_held [of ?stc f ?r ?opts] by auto
      have "sys_inv rt std F (insert ?rel H)"
        using reg(1) _ reg(2,3) up by (rule sys_inv_schedule) simp
      moreover have "res = Inr ?rel" "st' = std"
        using lk cp \<open>c = Inr f\<close> at Inr up by (simp_all add: lock_def Let_def)
      ultimately show ?thesis by simp
    qed
  qed
qed

text \<open>The timer callback: the timer is gone and its tick is in flight.\<close>

lemma sys_inv_fire:
  assumes inv: "sys_inv rt st F H" and pend: "timers st tid = Some t"
    and tick: "updateLock_tick rt' tid st = Some (res, st')"
  shows "sys_inv rt st' (insert (t_file t, t_options t, t_lock t) F) H"
proof -
  have ro: "reg_ok rt st" and ri: "reg_inj st" and ti: "tim_ok st"
    and fo: "fly_ok st F" and f1: "fly_one F" and ho: "han_ok st H"
    using inv by (simp_all add: sys_inv_def)
  let ?r = "t_lock t"
  have lk: "locks st' = locks st" and nr: "next_ref st' = next_ref st"
    and nt: "next_timer st' = next_timer st"
    and tm: "timers st' = (timers st)(tid := None)"
    and hp: "heap st' = (heap st)(?r := (heap st ?r)\<lparr>updateTimeout := None\<rparr>)"
    using tick pend
    by (auto simp: updateLock_tick_def Let_def fs_eqs case_prod_beta)
  have rel: "\<And>r. released (heap st' r) = released (heap st r)"
    by (simp add: hp)
  have tl: "\<And>tid' t'. timers st tid' = Some t' \<Longrightarrow>
      tid' < next_timer st \<and> locks st (t_file t') = Some (t_lock t') \<and>
      updateTimeout (heap st (t_lock t')) = Some tid'"
    using ti unfolding tim_ok_def by blast
  have reg: "locks st (t_file t) = Some ?r" and rec: "updateTimeout (heap st ?r) = Some tid"
    using tl [OF pend] by simp_all
  have live: "\<not> released (heap st ?r)" and small: "?r < next_ref st"
    using ro reg unfolding reg_ok_def by blast+
  have others: "\<And>tid' t'. timers st' tid' = Some t' \<Longrightarrow>
      timers st tid' = Some t' \<and> t_lock t' \<noteq> ?r"
  proof -
    fix tid' t'
    assume a: "timers st' tid' = Some t'"
    then have ne: "tid' \<noteq> tid" and old: "timers st tid' = Some t'"
      by (auto simp: tm split: if_splits)
    have "updateTimeout (heap st (t_lock t')) = Some tid'" using tl [OF old] by simp
    then have "t_lock t' \<noteq> ?r" using rec ne by auto
    then show "timers st tid' = Some t' \<and> t_lock t' \<noteq> ?r" using old by simp
  qed
  have notin: "\<And>f ops. (f, ops, ?r) \<notin> F"
  proof
    fix f ops
    assume "(f, ops, ?r) \<in> F"
    then have "\<forall>tid t'. timers st tid = Some t' \<longrightarrow> t_lock t' \<noteq> ?r"
      using fo live unfolding fly_ok_def by blast
    then show False using pend by blast
  qed
  have 1: "reg_ok rt st'"
    using ro unfolding reg_ok_def by (simp add: rel lk nr)
  have 2: "reg_inj st'"
    using ri unfolding reg_inj_def by (simp add: lk)
  have 3: "tim_ok st'"
    unfolding tim_ok_def
  proof (intro allI impI)
    fix tid' t'
    assume a: "timers st' tid' = Some t'"
    have old: "timers st tid' = Some t'" and ne: "t_lock t' \<noteq> ?r"
      using others [OF a] by simp_all
    show "tid' < next_timer st' \<and> locks st' (t_file t') = Some (t_lock t') \<and>
        updateTimeout (heap st' (t_lock t')) = Some tid'"
      using tl [OF old] ne by (simp add: lk nt hp)
  qed
  have 4: "fly_ok st' (insert (t_file t, t_options t, ?r) F)"
    unfolding fly_ok_def
  proof (intro allI impI)
    fix f ops r
    assume a: "(f, ops, r) \<in> insert (t_file t, t_options t, ?r) F"
    show "r < next_ref st' \<and>
        (\<not> released (heap st' r) \<longrightarrow>
           locks st' f = Some r \<and> (\<forall>tid t. timers st' tid = Some t \<longrightarrow> t_lock t \<noteq> r))"
    proof (cases "(f, ops, r) \<in> F")
      case True
      have b: "r < next_ref st" and c: "\<not> released (heap st r) \<longrightarrow>
           locks st f = Some r \<and> (\<forall>tid t. timers st tid = Some t \<longrightarrow> t_lock t \<noteq> r)"
        using fo True unfolding fly_ok_def by blast+
      show ?thesis
        using b c others by (auto simp: rel lk nr)
    next
      case False
      then have "f = t_file t" "r = ?r" using a by auto
      then show ?thesis
        using small reg others by (auto simp: lk nr)
    qed
  qed
  have 5: "fly_one (insert (t_file t, t_options t, ?r) F)"
    using f1 notin unfolding fly_one_def by auto
  have 6: "han_ok st' H"
    using ho unfolding han_ok_def by (simp add: rel lk nr)
  show ?thesis
    using 1 2 3 4 5 6 by (simp add: sys_inv_def)
qed

text \<open>A change of a lock object that keeps its \<open>released\<close> flag and its timer.\<close>

lemma sys_inv_touch:
  assumes inv: "sys_inv rt st F H"
    and "released lk = released (heap st r)"
    and "updateTimeout lk = updateTimeout (heap st r)"
  shows "sys_inv rt (st\<lparr>heap := (heap st)(r := lk)\<rparr>) F H"
proof -
  let ?st = "st\<lparr>heap := (heap st)(r := lk)\<rparr>"
  have rel: "\<And>x. released (heap ?st x) = released (heap st x)"
    and upd: "\<And>x. updateTimeout (heap ?st x) = updateTimeout (heap st x)"
    using assms(2,3) by simp_all
  have "reg_ok rt ?st = reg_ok rt st"
    unfolding reg_ok_def rel by simp
  moreover have "reg_inj ?st = reg_inj st"
    unfolding reg_inj_def by simp
  moreover have "tim_ok ?st = tim_ok st"
    unfolding tim_ok_def upd by simp
  moreover have "fly_ok ?st F = fly_ok st F"
    unfolding fly_ok_def rel by simp
  moreover have "han_ok ?st H = han_ok st H"
    unfolding han_ok_def rel by simp
  ultimately show ?thesis using inv by (simp add: sys_inv_def)
qed

text \<open>The completion callback of a tick in flight.\<close>

lemma sys_inv_done:
  assumes inv: "sys_inv rt st F H" and fl: "(f, ops, r) \<in> F"
  shows "sys_inv rt (snd (updateLock_done rt' f ops r err rd st)) (F - {(f, ops, r)}) H"
proof (cases "released (heap st r)")
  case True
  then have "snd (updateLock_done rt' f ops r err rd st) = st"
    by (simp add: updateLock_done_def)
  then show ?thesis using sys_inv_subset [OF inv, of "F - {(f, ops, r)}"] by auto
next
  case False
  let ?G = "F - {(f, ops, r)}"
  have sub: "?G \<subseteq> F" by auto
  have fo: "fly_ok st F" and f1: "fly_one F"
    using inv by (simp_all add: sys_inv_def)
  have reg: "locks st f = Some r"
    and nt: "\<forall>tid t. timers st tid = Some t \<longrightarrow> t_lock t \<noteq> r"
    using fo fl False unfolding fly_ok_def by blast+
  have nf: "\<forall>g ops'. (g, ops', r) \<notin> ?G"
    using f1 fl unfolding fly_one_def by blast
  have un: "sys_inv rt (snd (unlock rt' f (ops\<lparr>resolve := False\<rparr>) st)) ?G H"
    using sys_inv_subset [OF sys_inv_unlock [OF inv] sub] .
  have again: "sys_inv rt (snd (reschedule f ops (st\<lparr>heap := (heap st)(r := lk)\<rparr>))) ?G H"
    if "released lk = released (heap st r)" "updateTimeout lk = updateTimeout (heap st r)"
    for lk
  proof -
    let ?st1 = "st\<lparr>heap := (heap st)(r := lk)\<rparr>"
    have i1: "sys_inv rt ?st1 ?G H"
      using sys_inv_subset [OF sys_inv_touch [OF inv that] sub] .
    obtain st2 where up: "updateLock f ops ?st1 = Some st2"
      using updateLock_held [of ?st1 f r ops] reg by auto
    have "sys_inv rt st2 ?G H"
      using i1 _ _ nf up by (rule sys_inv_schedule) (simp_all add: reg nt)
    then show ?thesis using up by (simp add: reschedule_def)
  qed
  show ?thesis
  proof (cases "lastUpdate (heap st r) \<le> date_now rt' (world st) - stale ops")
    case True
    then show ?thesis using False un by (simp add: updateLock_done_def case_prod_beta)
  next
    case fresh: False
    show ?thesis
    proof (cases err)
      case (Some e)
      show ?thesis
      proof (cases "code e = ''ENOENT''")
        case True
        then show ?thesis
          using False fresh Some un by (simp add: updateLock_done_def case_prod_beta)
      next
        case other: False
        have "sys_inv rt (snd (reschedule f ops
            (st\<lparr>heap := (heap st)(r := (heap st r)\<lparr>updateError := Some e,
                                                     updateDelay := Some 1000\<rparr>)\<rparr>))) ?G H"
          by (rule again) simp_all
        then show ?thesis
          using False fresh Some other by (simp add: updateLock_done_def)
      qed
    next
      case None
      show ?thesis
      proof (cases "trim rd \<noteq> uid (heap st r)")
        case True
        have "sys_inv rt (st\<lparr>heap := (heap st)(r := (heap st r)\<lparr>released := True\<rparr>),
                             locks := (locks st)(f := None)\<rparr>) ?G H"
          using sys_inv_subset [OF sys_inv_drop [OF inv reg nt] sub] .
        then show ?thesis
          using False fresh None True by (simp add: updateLock_done_def)
      next
        case same: False
        have "sys_inv rt (snd (reschedule f ops
            (st\<lparr>heap := (heap st)(r := (heap st r)\<lparr>lastUpdate := date_now rt' (world st),
                                                     updateError := None,
                                                     updateDelay := None\<rparr>)\<rparr>))) ?G H"
          by (rule again) simp_all
        then show ?thesis
          using False fresh None same by (simp add: updateLock_done_def)
      qed
    qed
  qed
qed

text \<open>Every state the process reaches satisfies the invariant.\<close>

lemma reach_inv: "reach rt st F H \<Longrightarrow> sys_inv rt st F H"
proof (induction rule: reach.induct)
  case (start st)
  then show ?case
    by (simp add: sys_inv_def reg_ok_def reg_inj_def tim_ok_def fly_ok_def fly_one_def han_ok_def)
next
  case (env st F H w)
  then show ?case by (elim sys_inv_cong) simp_all
next
  case (do_lock st F H file0 u res st')
  then show ?case by (intro sys_inv_lock)
next
  case (do_unlock st F H file0 opts)
  then show ?case by (intro sys_inv_unlock)
next
  case (do_release st F H rel)
  then show ?case by (intro sys_inv_release)
next
  case (fire st F H tid t res st')
  then show ?case by (intro sys_inv_fire)
next
  case (complete st F H f ops r err rd)
  then show ?case by (intro sys_inv_done)
qed

text \<open>
  In every state the process reaches: a handle that \<open>lock\<close> returned and that is not
  released is registered under its path, which \<open>path.normalize\<close> leaves as it is; two
  such handles for one path are one lock object; a pending timer belongs to a registered,
  unreleased lock object that records it.
\<close>

lemma reach_handle:
  assumes "reach rt st F H" and "rel \<in> H" and "\<not> released (heap st (rel_lock rel))"
  shows "locks st (rel_file rel) = Some (rel_lock rel)
     \<and> path_normalize rt (rel_file rel) = rel_file rel"
proof -
  have inv: "sys_inv rt st F H" using assms(1) by (rule reach_inv)
  have l: "locks st (rel_file rel) = Some (rel_lock rel)"
    using inv assms(2,3) unfolding sys_inv_def han_ok_def by blast
  then show ?thesis
    using inv unfolding sys_inv_def reg_ok_def by blast
qed

lemma reach_one_handle:
  assumes "reach rt st F H" and "rel \<in> H" and "rel' \<in> H"
    and "\<not> released (heap st (rel_lock rel))" and "\<not> released (heap st (rel_lock rel'))"
    and "rel_file rel = rel_file rel'"
  shows "rel_lock rel = rel_lock rel'"
  using reach_handle [OF assms(1,2,4)] reach_handle [OF assms(1,3,5)] assms(6) by simp

lemma reach_timer:
  assumes "reach rt st F H" and "timers st tid = Some t"
  shows "\<not> released (heap st (t_lock t)) \<and> locks st (t_file t) = Some (t_lock t)
     \<and> updateTimeout (heap st (t_lock t)) = Some tid"
proof -
  have inv: "sys_inv rt st F H" using assms(1) by (rule reach_inv)
  have "locks st (t_file t) = Some (t_lock t)"
    "updateTimeout (heap st (t_lock t)) = Some tid"
    using inv assms(2) unfolding sys_inv_def tim_ok_def by blast+
  then show ?thesis
    using inv unfolding sys_inv_def reg_ok_def by blast
qed

text \<open>
  In every state the process reaches, the release function of a handle not yet released
  leaves no timer of its lock object pending.
\<close>

lemma reach_release_clears:
  assumes re: "reach rt st F H" and h: "rel \<in> H"
    and live: "\<not> released (heap st (rel_lock rel))"
  shows "\<forall>tid t. timers (snd (release rt rel st)) tid = Some t \<longrightarrow> t_lock t \<noteq> rel_lock rel"
proof -
  have inv: "sys_inv rt st F H" using re by (rule reach_inv)
  have ti: "tim_ok st" using inv by (simp add: sys_inv_def)
  have reg: "locks st (rel_file rel) = Some (rel_lock rel)"
    and norm: "path_normalize rt (rel_file rel) = rel_file rel"
    using reach_handle [OF re h live] by simp_all
  let ?opts = "(rel_options rel)\<lparr>resolve := False\<rparr>"
  have "release rt rel st =
      removeLock rt (rel_file rel) ?opts (unregister (rel_file rel) (rel_lock rel) st)"
    using live reg norm
    by (simp add: release_def unlock_unregister canonicalPath_no_resolve)
  then have "timers (snd (release rt rel st))
      = timers (unregister (rel_file rel) (rel_lock rel) st)"
    by (simp add: removeLock_frame)
  then show ?thesis
    using unregister_no_timer [OF ti] by auto
qed

text \<open>The process \<open>held0\<close> is reached, with the handle \<open>rel0\<close>.\<close>

lemma held0_reachable: "reach mem_rt held0 {} {rel0}"
proof -
  have "reach mem_rt (idle world0) {} {}"
    by (rule reach.start) (simp_all add: idle_def)
  then have "reach mem_rt held0 {}
      (case (Inr rel0 :: js_error option + mem_world release_fn) of
         Inl e \<Rightarrow> {} | Inr rel \<Rightarrow> insert rel {})"
    by (rule reach.do_lock [where ?file0.0 = "''/tmp/a''" and u = defaults])
       (simp_all add: held0_reached mem_rt_simps)
  then show ?thesis by simp
qed

end
